theory Spec2Isabelle
  imports Main "HOL-Library.List_Lexorder" "HOL-Library.Product_Lexorder"
begin

section \<open>Strings\<close>

text \<open>
  A Python \<open>str\<close> is a sequence of Unicode code points, so a string of the program is a
  list of code points (natural numbers). \<open>str\<close> turns an ASCII literal into such a list.
\<close>

type_synonym pystr = "nat list"

definition str :: "string \<Rightarrow> pystr" where
  "str s = map of_char s"

definition SPACE :: nat where
  "SPACE = 32"

text \<open>
  \<open>isspace\<close> is the whitespace class of Python's \<open>str.strip()\<close> and of \<open>\s\<close> in a
  \<open>str\<close> pattern of \<open>re\<close>: tab to carriage return, the separators 0x1C to 0x1F, the
  space, NEL, the no-break space and the Unicode space separators.
\<close>

definition isspace :: "nat \<Rightarrow> bool" where
  "isspace c \<longleftrightarrow>
     (9 \<le> c \<and> c \<le> 13) \<or> (28 \<le> c \<and> c \<le> 32) \<or> c = 133 \<or> c = 160 \<or> c = 5760 \<or>
     (8192 \<le> c \<and> c \<le> 8202) \<or> c = 8232 \<or> c = 8233 \<or> c = 8239 \<or> c = 8287 \<or>
     c = 12288"

text \<open>The class \<open>[^\x00-\x7F]\<close>: every code point above 0x7F.\<close>

definition non_ascii :: "nat \<Rightarrow> bool" where
  "non_ascii c \<longleftrightarrow> 127 < c"

text \<open>The printable ASCII characters are 0x20 to 0x7E.\<close>

definition printable :: "nat \<Rightarrow> bool" where
  "printable c \<longleftrightarrow> 32 \<le> c \<and> c \<le> 126"

text \<open>\<open>text.strip()\<close>: whitespace removed at both ends.\<close>

definition strip :: "pystr \<Rightarrow> pystr" where
  "strip s = rev (dropWhile isspace (rev (dropWhile isspace s)))"

text \<open>
  \<open>re.sub(r'C+', ' ', s)\<close> for a character class \<open>C\<close>: scanning from the left, each
  maximal run of characters of the class is replaced by one space.
\<close>

function re_sub :: "(nat \<Rightarrow> bool) \<Rightarrow> pystr \<Rightarrow> pystr" where
  "re_sub C [] = []"
| "re_sub C (c # cs) =
     (if C c then SPACE # re_sub C (dropWhile C cs) else c # re_sub C cs)"
  by pat_completeness auto
termination
  by (relation "measure (\<lambda>(C, s). length s)")
     (auto simp: less_Suc_eq_le length_dropWhile_le)

section \<open>TextNormalizer: \<open>clean_text\<close>\<close>

text \<open>
  \<^verbatim>\<open>
  def clean_text(text):
      if not text:
          return ''
      text = re.sub(r'\s+', ' ', text.strip())
      text = re.sub(r'[^\x00-\x7F]+', ' ', text)
      return text
  \<close>
  \<open>collapse_ws\<close> is the value of \<open>text\<close> after the first substitution.
\<close>

definition collapse_ws :: "pystr \<Rightarrow> pystr" where
  "collapse_ws text = re_sub isspace (strip text)"

definition clean_text :: "pystr \<Rightarrow> pystr" where
  "clean_text text =
     (if text = [] then []
      else let text = re_sub isspace (strip text);
               text = re_sub non_ascii text
           in text)"

text \<open>A string has a multi-space run when two spaces are adjacent in it.\<close>

fun multi_space :: "pystr \<Rightarrow> bool" where
  "multi_space (a # b # cs) = ((a = SPACE \<and> b = SPACE) \<or> multi_space (b # cs))"
| "multi_space _ = False"


section \<open>DateNormalizer\<close>

text \<open>
  A \<open>datetime\<close> object as \<open>datetime.strptime\<close> returns it: the calendar fields and the
  offset of its timezone (seconds east of UTC). Every \<open>datetime\<close> object of Python
  satisfies \<open>valid_datetime\<close>.
\<close>

record datetime =
  year :: nat
  month :: nat
  day :: nat
  hour :: nat
  minute :: nat
  second :: nat
  utcoffset :: int

definition valid_datetime :: "datetime \<Rightarrow> bool" where
  "valid_datetime d \<longleftrightarrow>
     1 \<le> year d \<and> year d \<le> 9999 \<and> 1 \<le> month d \<and> month d \<le> 12 \<and>
     1 \<le> day d \<and> day d \<le> 31 \<and> hour d < 24 \<and> minute d < 60 \<and> second d < 60"

text \<open>
  \<open>datetime.strptime\<close> raises \<open>ValueError\<close> when the string does not match the format
  or names an impossible date, and \<open>TypeError\<close> when its argument is not a string.
\<close>

datatype strptime_error = ValueError | TypeError

text \<open>Decimal numerals: \<open>decimal n\<close> is \<open>str(n)\<close>, \<open>zfill\<close> pads with zeros on the left.\<close>

definition digit :: "nat \<Rightarrow> nat" where
  "digit n = 48 + n mod 10"

fun decimal :: "nat \<Rightarrow> pystr" where
  "decimal n = (if n < 10 then [digit n] else decimal (n div 10) @ [digit n])"

declare decimal.simps [simp del]

definition zfill :: "nat \<Rightarrow> pystr \<Rightarrow> pystr" where
  "zfill w s = replicate (w - length s) 48 @ s"

text \<open>
  \<open>dt.strftime('%Y-%m-%d %H:%M:%S')\<close>. The fields \<open>%m %d %H %M %S\<close> are two digits wide,
  zero-padded. \<open>%Y\<close> is the platform's: C libraries that pad print four digits, the
  others (glibc) print the year as a plain decimal number, which is shorter than four
  digits before the year 1000. \<open>pads\<close> says which one the platform is. The offset of the
  timezone plays no part: the fields are printed as they were parsed.
\<close>

definition strftime :: "bool \<Rightarrow> datetime \<Rightarrow> pystr" where
  "strftime pads d =
     (if pads then zfill 4 (decimal (year d)) else decimal (year d)) @ str ''-'' @
     zfill 2 (decimal (month d)) @ str ''-'' @ zfill 2 (decimal (day d)) @ str '' '' @
     zfill 2 (decimal (hour d)) @ str '':'' @ zfill 2 (decimal (minute d)) @ str '':'' @
     zfill 2 (decimal (second d))"

text \<open>
  The shape \<open>YYYY-MM-DD HH:MM:SS\<close>: \<open>matches\<close> compares a string with a pattern in
  which \<open>D\<close> stands for one decimal digit and every other character for itself.
  \<open>number\<close> reads a run of digits back.
\<close>

definition is_digit :: "nat \<Rightarrow> bool" where
  "is_digit c \<longleftrightarrow> 48 \<le> c \<and> c \<le> 57"

fun matches :: "pystr \<Rightarrow> pystr \<Rightarrow> bool" where
  "matches [] [] = True"
| "matches (p # ps) (c # cs) = ((if p = 68 then is_digit c else c = p) \<and> matches ps cs)"
| "matches _ _ = False"

definition canonical :: "pystr \<Rightarrow> bool" where
  "canonical s = matches (str ''DDDD-DD-DD DD:DD:DD'') s"

definition number :: "pystr \<Rightarrow> nat" where
  "number s = foldl (\<lambda>a c. 10 * a + (c - 48)) 0 s"

definition same_fields :: "datetime \<Rightarrow> pystr \<Rightarrow> bool" where
  "same_fields d s \<longleftrightarrow>
     number (take 4 s) = year d \<and> number (take 2 (drop 5 s)) = month d \<and>
     number (take 2 (drop 8 s)) = day d \<and> number (take 2 (drop 11 s)) = hour d \<and>
     number (take 2 (drop 14 s)) = minute d \<and> number (take 2 (drop 17 s)) = second d"

section \<open>The libraries the program calls\<close>

text \<open>
  The program calls \<open>feedparser.parse\<close>, \<open>datetime.strptime\<close> and \<open>langdetect.detect\<close>.
  Their code is not the program's, so they are parameters of the model, collected in
  one record:
  \<^item> \<open>feedparser_parse url\<close> is the result of fetching and parsing the feed at \<open>url\<close>:
    a parsed feed, or the exception raised by the call;
  \<^item> \<open>strptime s\<close> is \<open>datetime.strptime(s, '%a, %d %b %Y %H:%M:%S %z')\<close>;
  \<^item> \<open>pads_year\<close> says whether \<open>%Y\<close> of \<open>strftime\<close> pads the year to four digits;
  \<^item> \<open>detect seed r text\<close> is \<open>langdetect.detect(text)\<close> when \<open>DetectorFactory.seed\<close> is
    \<open>seed\<close> and \<open>r\<close> is the randomness of the running process: the language code, or
    the exception raised;
  \<^item> \<open>entropy\<close> is the randomness of the running process;
  \<^item> \<open>repr_summary\<close> is Python's rendering of the summary (a list of dicts) in a
    formatted string.
\<close>

text \<open>
  Python is dynamically typed. The fields of an entry are strings in an ordinary feed,
  but nothing in the program makes them so, and the program itself provides for other
  values (\<open>if not text\<close>, \<open>except TypeError\<close>). A value is a string, \<open>None\<close> or, for the
  objects that are not strings, an integer.
\<close>

datatype pyval = Str pystr | PyNone | PyInt int

type_synonym entry = "string \<rightharpoonup> pyval"

record feed =
  bozo :: bool
  bozo_exception :: pystr
  entries :: "entry list"

text \<open>
  The exceptions that the \<open>try\<close> block of \<open>parse_rss_feed\<close> raises, each with its
  message: \<open>URLError\<close>, \<open>AttributeError\<close>, and \<open>Exception\<close> for any other class derived
  from \<open>Exception\<close>.
\<close>

datatype exc = URLError pystr | AttributeError pystr | Exception pystr

datatype detect_error = LangDetectException pystr | OtherFailure pystr

record summary_row =
  sum_country :: pystr
  sum_source :: pystr
  total_articles :: nat
  historical_data :: pystr

record env =
  feedparser_parse :: "pystr \<Rightarrow> exc + feed"
  strptime :: "pystr \<Rightarrow> strptime_error + datetime"
  pads_year :: bool
  detect :: "nat option \<Rightarrow> nat \<Rightarrow> pystr \<Rightarrow> detect_error + pystr"
  entropy :: nat
  repr_summary :: "summary_row list \<Rightarrow> pystr"

text \<open>
  Lines 85 to 89 of \<open>parse_rss_feed\<close>, applied to the raw value \<open>pub_date\<close>:
  \<^verbatim>\<open>
  try:
      pub_date = datetime.strptime(pub_date, '%a, %d %b %Y %H:%M:%S %z')
                   .strftime('%Y-%m-%d %H:%M:%S') if pub_date != 'Unknown' else 'Unknown'
  except (ValueError, TypeError):
      pub_date = 'Unknown'
  \<close>
\<close>

definition normalize_pub_date :: "env \<Rightarrow> pystr \<Rightarrow> pystr" where
  "normalize_pub_date E pub_date =
     (if pub_date \<noteq> str ''Unknown'' then
        (case strptime E pub_date of
           Inr dt \<Rightarrow> strftime (pads_year E) dt
         | Inl ValueError \<Rightarrow> str ''Unknown''
         | Inl TypeError \<Rightarrow> str ''Unknown'')
      else str ''Unknown'')"

section \<open>LanguageDetector\<close>

text \<open>
  \<^verbatim>\<open>
  DetectorFactory.seed = 0

  def detect_language(text):
      try:
          return detect(text)
      except:
          return 'unknown'
  \<close>
\<close>

definition DetectorFactory_seed :: "nat option" where
  "DetectorFactory_seed = Some 0"

definition detect_language :: "env \<Rightarrow> pystr \<Rightarrow> pystr" where
  "detect_language E text =
     (case detect E DetectorFactory_seed (entropy E) text of
        Inr code \<Rightarrow> code
      | Inl _ \<Rightarrow> str ''unknown'')"

text \<open>
  What the program relies on in the library: once a seed is set, the result of
  \<open>detect\<close> does not depend on the randomness of the process.
\<close>

definition seeded_detector ::
  "(nat option \<Rightarrow> nat \<Rightarrow> pystr \<Rightarrow> detect_error + pystr) \<Rightarrow> bool" where
  "seeded_detector d \<longleftrightarrow> (\<forall>s r r' text. d (Some s) r text = d (Some s) r' text)"


section \<open>FeedParser: \<open>parse_rss_feed\<close>\<close>

record feed_info =
  feed_country :: pystr
  feed_source :: pystr
  feed_url :: pystr

record news_item =
  country :: pystr
  source :: pystr
  title :: pystr
  pub_date :: pystr
  description :: pystr
  url :: pyval
  language :: pystr

datatype level = INFO | ERROR

type_synonym log = "(level \<times> pystr) list"

text \<open>\<open>d.get(k, default)\<close> on a dict.\<close>

definition dict_get :: "('k \<rightharpoonup> 'v) \<Rightarrow> 'k \<Rightarrow> 'v \<Rightarrow> 'v" where
  "dict_get d k dflt = (case d k of Some v \<Rightarrow> v | None \<Rightarrow> dflt)"

text \<open>The part \<open>{source} ({country})\<close> that every diagnostic of a feed carries.\<close>

definition source_tag :: "feed_info \<Rightarrow> pystr" where
  "source_tag feed_info = feed_source feed_info @ str '' ('' @ feed_country feed_info @ str '')''"

text \<open>
  \<open>clean_text\<close> called on any value. \<open>if not text\<close> returns the empty string for
  every value that counts as false: the empty string, \<open>None\<close> and zero. On any other
  value that is not a string, \<open>text.strip()\<close> raises \<open>AttributeError\<close>.
\<close>

definition truthy :: "pyval \<Rightarrow> bool" where
  "truthy v = (case v of Str s \<Rightarrow> s \<noteq> [] | PyNone \<Rightarrow> False | PyInt n \<Rightarrow> n \<noteq> 0)"

definition no_strip :: pystr where
  "no_strip = [39] @ str ''int'' @ [39] @ str '' object has no attribute '' @
              [39] @ str ''strip'' @ [39]"

definition clean_text_value :: "pyval \<Rightarrow> exc + pystr" where
  "clean_text_value text =
     (if \<not> truthy text then Inr []
      else case text of
             Str s \<Rightarrow> Inr (clean_text s)
           | PyNone \<Rightarrow> Inr []
           | PyInt n \<Rightarrow> Inl (AttributeError no_strip))"

text \<open>
  The date step on any value: a value that is not a string differs from the sentinel,
  \<open>strptime\<close> raises \<open>TypeError\<close> on it, and the handler of the step returns the
  sentinel.
\<close>

definition normalize_pub_date_value :: "env \<Rightarrow> pyval \<Rightarrow> pystr" where
  "normalize_pub_date_value E raw =
     (case raw of
        Str s \<Rightarrow> normalize_pub_date E s
      | PyNone \<Rightarrow> str ''Unknown''
      | PyInt n \<Rightarrow> str ''Unknown'')"

text \<open>
  The body of the loop over \<open>feed.entries\<close>, lines 83 to 101: the record built from one
  entry, or the exception that one of the two calls of \<open>clean_text\<close> raises. The title
  is cleaned first. The link is stored as it is.
\<close>

definition make_item :: "env \<Rightarrow> feed_info \<Rightarrow> entry \<Rightarrow> exc + news_item" where
  "make_item E feed_info entry =
     (case clean_text_value (dict_get entry ''title'' (Str (str ''No Title''))) of
        Inl e \<Rightarrow> Inl e
      | Inr cleaned_title \<Rightarrow>
          (case clean_text_value
                  (dict_get entry ''summary''
                     (dict_get entry ''description'' (Str (str ''No Description'')))) of
             Inl e \<Rightarrow> Inl e
           | Inr cleaned_description \<Rightarrow>
               let title = cleaned_title;
                   description = cleaned_description;
                   pub_date = dict_get entry ''published''
                                (dict_get entry ''updated'' (Str (str ''Unknown'')));
                   pub_date = normalize_pub_date_value E pub_date;
                   link = dict_get entry ''link'' (Str (str ''No URL''));
                   language = detect_language E (title @ str '' '' @ description)
               in Inr \<lparr>country = feed_country feed_info, source = feed_source feed_info,
                       title = title, pub_date = pub_date, description = description,
                       url = link, language = language\<rparr>))"

text \<open>
  The loop \<open>for entry in feed.entries\<close>: each record is appended to \<open>news_items\<close>. When
  the body raises, the loop ends with the exception, and \<open>news_items\<close> holds the records
  appended so far.
\<close>

fun entries_loop ::
  "env \<Rightarrow> feed_info \<Rightarrow> entry list \<Rightarrow> news_item list \<Rightarrow> exc option \<times> news_item list" where
  "entries_loop E feed_info [] news_items = (None, news_items)"
| "entries_loop E feed_info (entry # rest) news_items =
     (case make_item E feed_info entry of
        Inl e \<Rightarrow> (Some e, news_items)
      | Inr item \<Rightarrow> entries_loop E feed_info rest (news_items @ [item]))"

text \<open>
  \<^verbatim>\<open>
  def parse_rss_feed(feed_info):
      news_items = []
      try:
          feed = feedparser.parse(feed_info['url'])
          if feed.bozo:
              logging.error(f"Error parsing feed {feed_info['source']} ({feed_info['country']}): {feed.bozo_exception}")
              return news_items
          for entry in feed.entries:
              ...
              news_items.append({...})
          logging.info(f"Successfully parsed {len(news_items)} items from {feed_info['source']} ({feed_info['country']})")
      except URLError as e:
          logging.error(f"Network error for {feed_info['source']} ({feed_info['country']}): {e}")
      except Exception as e:
          logging.error(f"Unexpected error for {feed_info['source']} ({feed_info['country']}): {e}")
      return news_items
  \<close>
  \<open>try_block\<close> is the \<open>try\<close> block, lines 77 to 103: it gives the exception that it
  raises, if any, and \<open>news_items\<close> and the log as they are when it ends. The block
  raises when \<open>feedparser.parse\<close> raises and when the body of the loop raises. On a
  flagged document it logs and returns. \<open>parse_rss_feed\<close> takes the log and returns the
  records with the log extended: each handler logs and falls through to
  \<open>return news_items\<close>, the list as the \<open>try\<close> block left it. The two handlers
  together catch every exception of class \<open>Exception\<close>.
\<close>

definition message :: "exc \<Rightarrow> pystr" where
  "message e = (case e of URLError m \<Rightarrow> m | AttributeError m \<Rightarrow> m | Exception m \<Rightarrow> m)"

definition try_block ::
  "env \<Rightarrow> feed_info \<Rightarrow> log \<Rightarrow> exc option \<times> news_item list \<times> log" where
  "try_block E feed_info lg =
     (let news_items = [] in
      case feedparser_parse E (feed_url feed_info) of
        Inl e \<Rightarrow> (Some e, news_items, lg)
      | Inr feed \<Rightarrow>
          if bozo feed then
            (None, news_items,
             lg @ [(ERROR, str ''Error parsing feed '' @ source_tag feed_info @
                           str '': '' @ bozo_exception feed)])
          else
            (case entries_loop E feed_info (entries feed) news_items of
               (Some e, news_items) \<Rightarrow> (Some e, news_items, lg)
             | (None, news_items) \<Rightarrow>
                 (None, news_items,
                  lg @ [(INFO, str ''Successfully parsed '' @ decimal (length news_items) @
                               str '' items from '' @ source_tag feed_info)])))"

definition parse_rss_feed :: "env \<Rightarrow> feed_info \<Rightarrow> log \<Rightarrow> news_item list \<times> log" where
  "parse_rss_feed E feed_info lg =
     (case try_block E feed_info lg of
        (None, news_items, lg) \<Rightarrow> (news_items, lg)
      | (Some (URLError m), news_items, lg) \<Rightarrow>
          (news_items, lg @ [(ERROR, str ''Network error for '' @ source_tag feed_info @
                                     str '': '' @ m)])
      | (Some e, news_items, lg) \<Rightarrow>
          (news_items, lg @ [(ERROR, str ''Unexpected error for '' @ source_tag feed_info @
                                     str '': '' @ message e)]))"

text \<open>The fetch of a descriptor fails when the call raises or the parser flags the document.\<close>

definition fetch_fails :: "env \<Rightarrow> feed_info \<Rightarrow> bool" where
  "fetch_fails E feed_info =
     (case feedparser_parse E (feed_url feed_info) of
        Inl _ \<Rightarrow> True
      | Inr feed \<Rightarrow> bozo feed)"

text \<open>A message is tagged with a descriptor when \<open>{source} ({country})\<close> occurs in it.\<close>

definition tagged :: "feed_info \<Rightarrow> pystr \<Rightarrow> bool" where
  "tagged feed_info msg \<longleftrightarrow> (\<exists>pre post. msg = pre @ source_tag feed_info @ post)"

section \<open>The writers and the summary\<close>

text \<open>
  \<open>pd.DataFrame(data)\<close> on the list of records: one row per record, in order. The
  columns are the keys of the records, so a frame built from the empty list has no
  columns at all.
\<close>

type_synonym dataframe = "news_item list"

definition DataFrame :: "news_item list \<Rightarrow> dataframe" where
  "DataFrame data = data"

definition df_columns :: "dataframe \<Rightarrow> string list" where
  "df_columns df =
     (if df = [] then []
      else [''country'', ''source'', ''title'', ''pub_date'', ''description'', ''url'',
            ''language''])"

datatype pyerr = KeyError string | DatabaseError string

text \<open>
  \<open>df.drop_duplicates(subset=['title', 'url'], keep='first', inplace=True)\<close>: the rows
  are scanned in order and a row is dropped when its \<open>(title, url)\<close> has been seen in an
  earlier row. pandas returns an empty frame as it is, before it looks the columns of
  \<open>subset\<close> up; a frame with rows has both columns.
\<close>

fun keep_first :: "(pystr \<times> pyval) list \<Rightarrow> dataframe \<Rightarrow> dataframe" where
  "keep_first seen [] = []"
| "keep_first seen (r # rs) =
     (if (title r, url r) \<in> set seen then keep_first seen rs
      else r # keep_first ((title r, url r) # seen) rs)"

definition drop_duplicates :: "dataframe \<Rightarrow> dataframe" where
  "drop_duplicates df = (if df = [] then df else keep_first [] df)"

text \<open>
  The files and the table the program writes, and its log. \<open>None\<close> is a file or a
  table that does not exist yet.
\<close>

record world =
  news_data_csv :: "news_item list option"
  news_table :: "news_item list option"
  news_summary_csv :: "summary_row list option"
  logfile :: log

text \<open>
  \<^verbatim>\<open>
  def save_to_csv(data, filename='news_data.csv'):
      df = pd.DataFrame(data)
      df.drop_duplicates(subset=['title', 'url'], keep='first', inplace=True)
      df.to_csv(filename, index=False, encoding='utf-8')
      logging.info(f"Saved {len(df)} news items to {filename}")
      return len(df)
  \<close>
  \<open>to_csv\<close> opens the file for writing: what the file held is lost.
\<close>

definition save_to_csv :: "news_item list \<Rightarrow> world \<Rightarrow> nat \<times> world" where
  "save_to_csv data w =
     (let df = DataFrame data;
          df = drop_duplicates df;
          w = w\<lparr>news_data_csv := Some df\<rparr>;
          w = w\<lparr>logfile := logfile w @ [(INFO, str ''Saved '' @ decimal (length df) @
                                               str '' news items to news_data.csv'')]\<rparr>
      in (length df, w))"

text \<open>
  \<open>df.to_sql('news', conn, if_exists='append', index=False)\<close>: the rows of the frame
  are added after the rows of the table. When the table does not exist it is created
  from the columns of the frame, and SQLite refuses to create a table without columns.
\<close>

definition to_sql :: "dataframe \<Rightarrow> news_item list option \<Rightarrow> pyerr + news_item list" where
  "to_sql df table =
     (case table of
        Some rows \<Rightarrow> Inr (rows @ df)
      | None \<Rightarrow> if df_columns df = [] then Inl (DatabaseError ''CREATE TABLE news'')
                else Inr df)"

text \<open>
  \<^verbatim>\<open>
  def save_to_sqlite(data, db_name='news_data.db'):
      conn = sqlite3.connect(db_name)
      df = pd.DataFrame(data)
      df.drop_duplicates(subset=['title', 'url'], keep='first', inplace=True)
      df.to_sql('news', conn, if_exists='append', index=False)
      conn.commit()
      conn.close()
      logging.info(f"Saved {len(df)} news items to {db_name}")
      return len(df)
  \<close>
\<close>

definition save_to_sqlite :: "news_item list \<Rightarrow> world \<Rightarrow> pyerr + nat \<times> world" where
  "save_to_sqlite data w =
     (let df = DataFrame data;
          df = drop_duplicates df
      in case to_sql df (news_table w) of
           Inl e \<Rightarrow> Inl e
         | Inr table \<Rightarrow>
             let w = w\<lparr>news_table := Some table\<rparr>;
                 w = w\<lparr>logfile := logfile w @ [(INFO, str ''Saved '' @ decimal (length df) @
                                                      str '' news items to news_data.db'')]\<rparr>
             in Inr (length df, w))"

text \<open>
  \<open>df.groupby(['country', 'source']).size()\<close>: one group per pair that occurs, with the
  number of its rows; \<open>groupby\<close> sorts the groups by their key (\<open>sort=True\<close> is its
  default). \<open>count_row\<close> adds one row to the groups counted so far, which are kept in
  the order of their keys. Strings compare as Python compares them, code point by
  code point, and pairs by their first component first. \<open>groupby\<close> raises \<open>KeyError\<close>
  when the frame does not have the columns.
\<close>

fun count_row :: "pystr \<times> pystr \<Rightarrow> ((pystr \<times> pystr) \<times> nat) list \<Rightarrow>
    ((pystr \<times> pystr) \<times> nat) list" where
  "count_row k [] = [(k, 1)]"
| "count_row k ((k', n) # groups) =
     (if k = k' then (k', n + 1) # groups
      else if k < k' then (k, 1) # (k', n) # groups
      else (k', n) # count_row k groups)"

definition groupby_size :: "dataframe \<Rightarrow> pyerr + ((pystr \<times> pystr) \<times> nat) list" where
  "groupby_size df =
     (if \<not> set [''country'', ''source''] \<subseteq> set (df_columns df) then Inl (KeyError ''country'')
      else Inr (foldl (\<lambda>groups r. count_row (country r, source r) groups) [] df))"

text \<open>
  \<^verbatim>\<open>
  def generate_summary(data):
      df = pd.DataFrame(data)
      summary = df.groupby(['country', 'source']).size().reset_index(name='total_articles')
      summary['historical_data'] = 'Varies by feed (up to 1 year where available)'
      return summary.to_dict('records')
  \<close>
\<close>

definition annotation :: pystr where
  "annotation = str ''Varies by feed (up to 1 year where available)''"

definition generate_summary :: "news_item list \<Rightarrow> pyerr + summary_row list" where
  "generate_summary data =
     (let df = DataFrame data
      in case groupby_size df of
           Inl e \<Rightarrow> Inl e
         | Inr groups \<Rightarrow>
             Inr (map (\<lambda>((c, s), n). \<lparr>sum_country = c, sum_source = s, total_articles = n,
                                      historical_data = annotation\<rparr>) groups))"


section \<open>The pipeline: \<open>main\<close>\<close>

definition descriptor :: "string \<Rightarrow> string \<Rightarrow> string \<Rightarrow> feed_info" where
  "descriptor c s u = \<lparr>feed_country = str c, feed_source = str s, feed_url = str u\<rparr>"

definition RSS_FEEDS :: "feed_info list" where
  "RSS_FEEDS =
     [
      descriptor ''United Kingdom'' ''BBC News''
        ''http://feeds.bbci.co.uk/news/rss.xml'',
      descriptor ''United States'' ''CNN''
        ''http://rss.cnn.com/rss/edition.rss'',
      descriptor ''Qatar'' ''Al Jazeera''
        ''https://www.aljazeera.com/xml/rss/all.xml'',
      descriptor ''Japan'' ''NHK''
        ''https://www3.nhk.or.jp/rss/news/cat0.xml'',
      descriptor ''India'' ''The Times of India''
        ''https://timesofindia.indiatimes.com/rssfeedstopstories.cms'',
      descriptor ''Singapore'' ''The Straits Times''
        ''https://www.straitstimes.com/news/rss'',
      descriptor ''Malaysia'' ''The Star''
        ''https://www.thestar.com.my/rss'',
      descriptor ''Indonesia'' ''Jakarta Post''
        ''https://www.thejakartapost.com/feed'',
      descriptor ''South Korea'' ''Yonhap News''
        ''https://en.yna.co.kr/rss'',
      descriptor ''China'' ''China Daily''
        ''http://www.chinadaily.com.cn/rss/world_rss.xml'',
      descriptor ''Australia'' ''ABC News''
        ''https://www.abc.net.au/news/feed'',
      descriptor ''Germany'' ''Deutsche Welle''
        ''https://rss.dw.com/xml/rss-en-world'',
      descriptor ''France'' ''France 24''
        ''https://www.france24.com/en/rss'',
      descriptor ''Brazil'' ''Folha de S.Paulo''
        ''https://www1.folha.uol.com.br/internacional/en/rss091.xml'',
      descriptor ''South Africa'' ''News24''
        ''https://www.news24.com/news24/rss'',
      descriptor ''Nigeria'' ''Punch Nigeria''
        ''https://punchng.com/feed/'',
      descriptor ''Canada'' ''CBC News''
        ''https://www.cbc.ca/webfeed/rss/rss-topstories'',
      descriptor ''Russia'' ''TASS''
        ''https://tass.com/rss/v2.xml'',
      descriptor ''Mexico'' ''El Universal''
        ''https://www.eluniversal.com.mx/rss'',
      descriptor ''Egypt'' ''Ahram Online''
        ''http://english.ahram.org.eg/RSS.aspx'',
      descriptor ''Turkey'' ''Hurriyet Daily News''
        ''https://www.hurriyetdailynews.com/rss'',
      descriptor ''Pakistan'' ''Dawn''
        ''https://www.dawn.com/feeds/home'',
      descriptor ''Argentina'' ''Clarin''
        ''https://www.clarin.com/rss.html'',
      descriptor ''Thailand'' ''Bangkok Post''
        ''https://www.bangkokpost.com/rss'',
      descriptor ''Kenya'' ''The Standard''
        ''https://www.standardmedia.co.ke/rss''
     ]"

text \<open>
  \<^verbatim>\<open>
  all_news = []
  for feed in RSS_FEEDS:
      logging.info(f"Processing feed: {feed['source']} ({feed['country']})")
      news_items = parse_rss_feed(feed)
      all_news.extend(news_items)
      time.sleep(1)
  \<close>
  The pause between two feeds is not part of the model.
\<close>

definition collect :: "env \<Rightarrow> feed_info list \<Rightarrow> log \<Rightarrow> news_item list \<times> log" where
  "collect E feeds lg =
     foldl (\<lambda>(all_news, lg) feed.
              let lg = lg @ [(INFO, str ''Processing feed: '' @ source_tag feed)];
                  (news_items, lg) = parse_rss_feed E feed lg
              in (all_news @ news_items, lg))
           ([], lg) feeds"

text \<open>
  \<^verbatim>\<open>
  total_csv = save_to_csv(all_news)
  total_db = save_to_sqlite(all_news)
  summary = generate_summary(all_news)
  logging.info(f"Summary: {summary}")
  pd.DataFrame(summary).to_csv('news_summary.csv', index=False, encoding='utf-8')
  logging.info("Summary saved to news_summary.csv")
  \<close>
  \<open>main\<close> catches nothing: an exception of a writer or of the summary ends the run.
  The result of \<open>pipeline\<close> is the exception that ended the run, if any, and the files,
  the table and the log as the run left them. The report that \<open>main\<close> prints on the
  console at the end is not part of the model.
\<close>

definition pipeline :: "env \<Rightarrow> feed_info list \<Rightarrow> world \<Rightarrow> pyerr option \<times> world" where
  "pipeline E feeds w =
     (let (all_news, lg) = collect E feeds (logfile w);
          w = w\<lparr>logfile := lg\<rparr>;
          (total_csv, w) = save_to_csv all_news w
      in case save_to_sqlite all_news w of
           Inl e \<Rightarrow> (Some e, w)
         | Inr (total_db, w) \<Rightarrow>
             (case generate_summary all_news of
                Inl e \<Rightarrow> (Some e, w)
              | Inr summary \<Rightarrow>
                  let w = w\<lparr>logfile := logfile w @
                             [(INFO, str ''Summary: '' @ repr_summary E summary)]\<rparr>;
                      w = w\<lparr>news_summary_csv := Some summary\<rparr>;
                      w = w\<lparr>logfile := logfile w @
                             [(INFO, str ''Summary saved to news_summary.csv'')]\<rparr>
                  in (None, w)))"

definition main :: "env \<Rightarrow> world \<Rightarrow> pyerr option \<times> world" where
  "main E w = pipeline E RSS_FEEDS w"

text \<open>The number of rows of a file or a table; one that does not exist has none.\<close>

definition row_count :: "'a list option \<Rightarrow> nat" where
  "row_count t = (case t of None \<Rightarrow> 0 | Some rows \<Rightarrow> length rows)"


section \<open>Notions of the specification\<close>



text \<open>The pair a record is grouped by, and the pair a row of the summary stands for.\<close>

definition group_key :: "news_item \<Rightarrow> pystr \<times> pystr" where
  "group_key r = (country r, source r)"

definition row_key :: "summary_row \<Rightarrow> pystr \<times> pystr" where
  "row_key g = (sum_country g, sum_source g)"

text \<open>The number that a list of groups holds for a key, and the records of a key.\<close>

definition group_count :: "('k \<times> nat) list \<Rightarrow> 'k \<Rightarrow> nat" where
  "group_count groups k = sum_list (map snd (filter (\<lambda>p. fst p = k) groups))"

definition records_of :: "pystr \<times> pystr \<Rightarrow> news_item list \<Rightarrow> news_item list" where
  "records_of k data = filter (\<lambda>r. group_key r = k) data"

text \<open>The rows of a table; a table that does not exist has none.\<close>

definition table_rows :: "'a list option \<Rightarrow> 'a list" where
  "table_rows t = (case t of None \<Rightarrow> [] | Some rows \<Rightarrow> rows)"

section \<open>A sample environment\<close>

text \<open>
  One environment to run the model in: a feed of three entries, the first two with the
  same title and link; a feed that cannot be reached, which the parser reports as a
  flagged document without entries; a feed that the parser flags as not well-formed;
  a feed whose second entry has a number for its title; a fetch that raises
  \<open>URLError\<close> and fetches that raise another exception; two timestamps that
  \<open>strptime\<close> parses, the second before the year 1000; a platform on which \<open>%Y\<close> does
  not pad; a detector whose answer depends on the randomness of the process only when
  no seed is set.
\<close>

definition sample_feed :: feed where
  "sample_feed =
     \<lparr>bozo = False, bozo_exception = [],
      entries =
        [[''title'' \<mapsto> Str (str ''Storm  warning''), ''summary'' \<mapsto> Str (str ''Heavy rain''),
          ''published'' \<mapsto> Str (str ''Tue, 02 Jan 2024 03:04:05 +0530''),
          ''link'' \<mapsto> Str (str ''http://news.example/1'')],
         [''title'' \<mapsto> Str (str ''Storm warning''), ''description'' \<mapsto> Str (str ''Update''),
          ''updated'' \<mapsto> Str (str ''yesterday''),
          ''link'' \<mapsto> Str (str ''http://news.example/1'')],
         [''link'' \<mapsto> Str (str ''http://news.example/2'')]]\<rparr>"

definition broken_feed :: feed where
  "broken_feed =
     \<lparr>bozo = False, bozo_exception = [],
      entries =
        [[''title'' \<mapsto> Str (str ''Flood''), ''link'' \<mapsto> Str (str ''http://news.example/4'')],
         [''title'' \<mapsto> PyInt 7, ''link'' \<mapsto> Str (str ''http://news.example/5'')],
         [''title'' \<mapsto> Str (str ''Drought''), ''link'' \<mapsto> Str (str ''http://news.example/6'')]]\<rparr>"

definition sample_env :: env where
  "sample_env =
     \<lparr>feedparser_parse =
        (\<lambda>u. if u = str ''http://a.example/rss'' then Inr sample_feed
             else if u = str ''http://b.example/rss''
               then Inr \<lparr>bozo = True, bozo_exception = str ''<urlopen error timed out>'',
                        entries = []\<rparr>
             else if u = str ''http://c.example/rss''
               then Inr \<lparr>bozo = True, bozo_exception = str ''not well-formed'',
                        entries = [[''title'' \<mapsto> Str (str ''Half a feed'')]]\<rparr>
             else if u = str ''http://d.example/rss'' then Inr broken_feed
             else if u = str ''http://e.example/rss'' then Inl (URLError (str ''timed out''))
             else Inl (Exception (str ''bad url''))),
      strptime =
        (\<lambda>s. if s = str ''Tue, 02 Jan 2024 03:04:05 +0530''
               then Inr \<lparr>year = 2024, month = 1, day = 2, hour = 3, minute = 4, second = 5,
                        utcoffset = 19800\<rparr>
             else if s = str ''Mon, 01 Jan 0999 10:20:30 +0530''
               then Inr \<lparr>year = 999, month = 1, day = 1, hour = 10, minute = 20,
                        second = 30, utcoffset = 19800\<rparr>
             else Inl ValueError),
      pads_year = False,
      detect =
        (\<lambda>seed r text.
           case seed of
             Some s \<Rightarrow> if text = [] then Inl (LangDetectException (str ''No features in text.''))
                       else Inr (str ''en'')
           | None \<Rightarrow> Inr (if even r then str ''en'' else str ''de'')),
      entropy = 0,
      repr_summary = (\<lambda>summary. str ''[...]'')\<rparr>"

definition sample_feeds :: "feed_info list" where
  "sample_feeds =
     [descriptor ''Japan'' ''NHK'' ''http://a.example/rss'',
      descriptor ''Canada'' ''CBC News'' ''http://b.example/rss'']"

text \<open>
  Four records: the first two share title and link and differ in their descriptions;
  the last one is of a source whose country sorts before the country of the others.
\<close>

definition news :: "string \<Rightarrow> string \<Rightarrow> string \<Rightarrow> string \<Rightarrow> string \<Rightarrow> news_item" where
  "news c s t d u =
     \<lparr>country = str c, source = str s, title = str t, pub_date = str ''Unknown'',
      description = str d, url = Str (str u), language = str ''en''\<rparr>"

definition sample_news :: "news_item list" where
  "sample_news =
     [news ''Japan'' ''NHK'' ''Storm warning'' ''Heavy rain'' ''http://news.example/1'',
      news ''Japan'' ''NHK'' ''Storm warning'' ''Update'' ''http://news.example/1'',
      news ''Japan'' ''NHK'' ''No Title'' ''No Description'' ''http://news.example/2'',
      news ''Canada'' ''CBC News'' ''Snow'' ''Cold'' ''http://news.example/3'']"

definition new_world :: world where
  "new_world = \<lparr>news_data_csv = None, news_table = None, news_summary_csv = None,
                 logfile = []\<rparr>"

section \<open>Properties of \<open>clean_text\<close>\<close>

subsection \<open>Substitution of runs\<close>


lemma isspace_SPACE: "isspace SPACE"
  by (simp add: isspace_def SPACE_def)

lemma not_non_ascii_SPACE: "\<not> non_ascii SPACE"
  by (simp add: non_ascii_def SPACE_def)

lemma re_sub_set: "c \<in> set (re_sub C s) \<Longrightarrow> c = SPACE \<or> (c \<in> set s \<and> \<not> C c)"
proof (induction C s rule: re_sub.induct)
  case (1 C)
  then show ?case by simp
next
  case (2 C d ds)
  show ?case
  proof (cases "C d")
    case True
    with 2 show ?thesis by (auto dest: set_dropWhileD)
  next
    case False
    with 2 show ?thesis by auto
  qed
qed

lemma re_sub_hd:
  "re_sub C s = x # t \<Longrightarrow> s \<noteq> [] \<and> x = (if C (hd s) then SPACE else hd s)"
  by (cases s) (auto split: if_splits)

lemma hd_dropWhile_not: "dropWhile C s \<noteq> [] \<Longrightarrow> \<not> C (hd (dropWhile C s))"
  by (simp add: hd_dropWhile)

lemma multi_space_Cons:
  "multi_space (a # t) \<longleftrightarrow> (a = SPACE \<and> t \<noteq> [] \<and> hd t = SPACE) \<or> multi_space t"
  by (cases t) auto

lemma re_sub_no_multi_space:
  "C SPACE \<Longrightarrow> \<not> multi_space (re_sub C s)"
proof (induction C s rule: re_sub.induct)
  case (1 C)
  then show ?case by simp
next
  case (2 C d ds)
  show ?case
  proof (cases "C d")
    case True
    let ?t = "re_sub C (dropWhile C ds)"
    have ih: "\<not> multi_space ?t" using 2 True by simp
    have "hd ?t \<noteq> SPACE" if ne: "?t \<noteq> []"
    proof -
      from ne obtain x t' where xt: "?t = x # t'" by (cases ?t) auto
      from re_sub_hd [OF xt] have d: "dropWhile C ds \<noteq> []"
        and x: "x = (if C (hd (dropWhile C ds)) then SPACE else hd (dropWhile C ds))"
        by auto
      from hd_dropWhile_not [OF d] x have "\<not> C x" by auto
      then show ?thesis using xt "2.prems" by auto
    qed
    then show ?thesis using ih True by (auto simp add: multi_space_Cons)
  next
    case False
    then have "d \<noteq> SPACE" using "2.prems" by auto
    with 2 False show ?thesis by (simp add: multi_space_Cons)
  qed
qed

lemma dropWhile_all: "\<forall>c\<in>set s. C c \<Longrightarrow> dropWhile C s = []"
  by (induction s) auto

lemma last_dropWhile: "dropWhile C s \<noteq> [] \<Longrightarrow> last (dropWhile C s) = last s"
  by (induction s) (auto split: if_splits)

lemma re_sub_all_class:
  "s \<noteq> [] \<Longrightarrow> \<forall>c\<in>set s. C c \<Longrightarrow> re_sub C s = [SPACE]"
  by (cases s) (auto simp: dropWhile_all)

lemma dropWhile_id_hd: "b = [] \<or> \<not> C (hd b) \<Longrightarrow> dropWhile C b = b"
  by (cases b) auto

lemma re_sub_append:
  "a = [] \<or> b = [] \<or> \<not> C (last a) \<or> \<not> C (hd b) \<Longrightarrow>
   re_sub C (a @ b) = re_sub C a @ re_sub C b"
proof (induction C a rule: re_sub.induct)
  case (1 C)
  then show ?case by simp
next
  case (2 C d ds)
  show ?case
  proof (cases "C d")
    case False
    have "ds = [] \<or> b = [] \<or> \<not> C (last ds) \<or> \<not> C (hd b)"
      using "2.prems" by (auto split: if_splits)
    with 2 False show ?thesis by simp
  next
    case True
    show ?thesis
    proof (cases "\<forall>c\<in>set ds. C c")
      case all: True
      then have da: "dropWhile C ds = []" by (rule dropWhile_all)
      have dab: "dropWhile C (ds @ b) = dropWhile C b"
        using all by (simp add: dropWhile_append2)
      have "C (last (d # ds))" using True all by (cases ds) auto
      with "2.prems" have "b = [] \<or> \<not> C (hd b)" by auto
      then have "dropWhile C b = b" by (rule dropWhile_id_hd)
      with True all dab show ?thesis by (simp add: dropWhile_all)
    next
      case some: False
      then obtain x where x: "x \<in> set ds" "\<not> C x" by auto
      then have dab: "dropWhile C (ds @ b) = dropWhile C ds @ b"
        by (simp add: dropWhile_append1)
      have ne: "dropWhile C ds \<noteq> []" using x by auto
      have "last (dropWhile C ds) = last (d # ds)"
        using ne x by (auto simp: last_dropWhile)
      with "2.prems" ne
      have "dropWhile C ds = [] \<or> b = [] \<or> \<not> C (last (dropWhile C ds)) \<or> \<not> C (hd b)"
        by auto
      with "2.IH"(1) [OF True] have "re_sub C (dropWhile C ds @ b)
          = re_sub C (dropWhile C ds) @ re_sub C b" by simp
      with True dab show ?thesis by simp
    qed
  qed
qed

lemma re_sub_run:
  assumes "r \<noteq> []" "\<forall>c\<in>set r. C c" "a = [] \<or> \<not> C (last a)" "b = [] \<or> \<not> C (hd b)"
  shows "re_sub C (a @ r @ b) = re_sub C a @ [SPACE] @ re_sub C b"
proof -
  have "C (last r)" using assms(1,2) by simp
  have "re_sub C (a @ r @ b) = re_sub C a @ re_sub C (r @ b)"
    using assms(1,3) by (intro re_sub_append) auto
  also have "re_sub C (r @ b) = re_sub C r @ re_sub C b"
    using assms(4) by (intro re_sub_append) auto
  finally show ?thesis using assms(1,2) by (simp add: re_sub_all_class)
qed

lemma re_sub_id: "\<forall>c\<in>set s. \<not> C c \<Longrightarrow> re_sub C s = s"
  by (induction s) auto


subsection \<open>The output of \<open>clean_text\<close>\<close>

lemma clean_text_chars:
  assumes "c \<in> set (clean_text x)"
  shows "c \<le> 127 \<and> (isspace c \<longrightarrow> c = SPACE)"
proof -
  from assms have x: "x \<noteq> []" and c: "c \<in> set (re_sub non_ascii (re_sub isspace (strip x)))"
    by (auto simp: clean_text_def split: if_splits)
  from re_sub_set [OF c] consider "c = SPACE"
    | "c \<in> set (re_sub isspace (strip x))" "\<not> non_ascii c" by auto
  then show ?thesis
  proof cases
    case 1
    then show ?thesis by (simp add: SPACE_def)
  next
    case 2
    from re_sub_set [OF 2(1)] have "c = SPACE \<or> \<not> isspace c" by auto
    with 2(2) show ?thesis by (auto simp: non_ascii_def)
  qed
qed

lemma clean_text_collapse:
  "clean_text x = (if x = [] then [] else re_sub non_ascii (collapse_ws x))"
  by (simp add: clean_text_def collapse_ws_def)


text \<open>
  C2, as the code has it. For every input string, the output of \<open>clean_text\<close> holds
  only characters of the 7-bit range 0x00 to 0x7F, and no whitespace character other
  than the space: no tab, no newline, no carriage return. The text after the first
  substitution (trimmed, whitespace collapsed) has no two adjacent spaces, and the
  second substitution replaces each maximal run of characters above 0x7F of that text
  by one space and keeps everything else.
\<close>

theorem clean_text_output:
  "(\<forall>c\<in>set (clean_text x). c \<le> 127 \<and> (isspace c \<longrightarrow> c = SPACE)) \<and>
   9 \<notin> set (clean_text x) \<and> 10 \<notin> set (clean_text x) \<and> 13 \<notin> set (clean_text x) \<and>
   \<not> multi_space (collapse_ws x) \<and>
   (x \<noteq> [] \<longrightarrow>
     (\<forall>a r b. collapse_ws x = a @ r @ b \<and> r \<noteq> [] \<and> (\<forall>c\<in>set r. non_ascii c) \<and>
        (a = [] \<or> \<not> non_ascii (last a)) \<and> (b = [] \<or> \<not> non_ascii (hd b)) \<longrightarrow>
        clean_text x = re_sub non_ascii a @ [SPACE] @ re_sub non_ascii b) \<and>
     ((\<forall>c\<in>set (collapse_ws x). \<not> non_ascii c) \<longrightarrow> clean_text x = collapse_ws x))"
proof (intro conjI impI allI)
  show "\<forall>c\<in>set (clean_text x). c \<le> 127 \<and> (isspace c \<longrightarrow> c = SPACE)"
    using clean_text_chars by blast
  show "9 \<notin> set (clean_text x)"
  proof
    assume "9 \<in> set (clean_text x)"
    from clean_text_chars [OF this] show False by (simp add: isspace_def SPACE_def)
  qed
  show "10 \<notin> set (clean_text x)"
  proof
    assume "10 \<in> set (clean_text x)"
    from clean_text_chars [OF this] show False by (simp add: isspace_def SPACE_def)
  qed
  show "13 \<notin> set (clean_text x)"
  proof
    assume "13 \<in> set (clean_text x)"
    from clean_text_chars [OF this] show False by (simp add: isspace_def SPACE_def)
  qed
  show "\<not> multi_space (collapse_ws x)"
    unfolding collapse_ws_def by (rule re_sub_no_multi_space) (rule isspace_SPACE)
next
  fix a r b
  assume x: "x \<noteq> []"
    and h: "collapse_ws x = a @ r @ b \<and> r \<noteq> [] \<and> (\<forall>c\<in>set r. non_ascii c) \<and>
        (a = [] \<or> \<not> non_ascii (last a)) \<and> (b = [] \<or> \<not> non_ascii (hd b))"
  from h have "re_sub non_ascii (a @ r @ b) = re_sub non_ascii a @ [SPACE] @ re_sub non_ascii b"
    by (intro re_sub_run) auto
  with x h show "clean_text x = re_sub non_ascii a @ [SPACE] @ re_sub non_ascii b"
    by (simp add: clean_text_collapse)
next
  assume "x \<noteq> []" "\<forall>c\<in>set (collapse_ws x). \<not> non_ascii c"
  then show "clean_text x = collapse_ws x"
    by (simp add: clean_text_collapse re_sub_id)
qed

theorem clean_text_output_witness:
  "clean_text [97, 9, 10, 233, 233, 98] = [97, 32, 32, 98] \<and>
   collapse_ws [97, 9, 10, 233, 233, 98] = [97, 32] @ [233, 233] @ [98] \<and>
   list_all (\<lambda>c. c \<le> 127) (clean_text [97, 9, 10, 233, 233, 98]) \<and>
   clean_text [97, 9, 10, 98] = collapse_ws [97, 9, 10, 98]"
proof -
  let ?x = "[97, 9, 10, 233, 233, 98] :: pystr" and ?y = "[97, 9, 10, 98] :: pystr"
  note out = clean_text_output [of ?x]
  have c: "collapse_ws ?x = [97, 32] @ [233, 233] @ [98]"
    by (simp add: collapse_ws_def strip_def isspace_def SPACE_def)
  have side: "[233, 233] \<noteq> ([] :: pystr) \<and> (\<forall>c\<in>set [233, 233]. non_ascii c) \<and>
      ([97, 32] = ([] :: pystr) \<or> \<not> non_ascii (last [97, 32])) \<and>
      ([98] = ([] :: pystr) \<or> \<not> non_ascii (hd [98]))"
    by (simp add: non_ascii_def)
  have ne: "?x \<noteq> []" by simp
  from out ne have "\<forall>a r b. collapse_ws ?x = a @ r @ b \<and> r \<noteq> [] \<and>
      (\<forall>c\<in>set r. non_ascii c) \<and> (a = [] \<or> \<not> non_ascii (last a)) \<and>
      (b = [] \<or> \<not> non_ascii (hd b)) \<longrightarrow>
      clean_text ?x = re_sub non_ascii a @ [SPACE] @ re_sub non_ascii b"
    by (elim conjE) (erule (1) impE [THEN conjunct1])
  with c side
  have "clean_text ?x = re_sub non_ascii [97, 32] @ [SPACE] @ re_sub non_ascii [98]"
    by blast
  then have r: "clean_text ?x = [97, 32, 32, 98]"
    by (simp add: non_ascii_def SPACE_def)
  from out have "\<forall>c\<in>set (clean_text ?x). c \<le> 127 \<and> (isspace c \<longrightarrow> c = SPACE)"
    by (elim conjE)
  then have chars: "list_all (\<lambda>c. c \<le> 127) (clean_text ?x)"
    by (simp add: list_all_iff)
  have c2: "collapse_ws ?y = [97, 32, 98]"
    by (simp add: collapse_ws_def strip_def isspace_def SPACE_def)
  then have "\<forall>c\<in>set (collapse_ws ?y). \<not> non_ascii c"
    by (simp add: non_ascii_def)
  with clean_text_output [of ?y] have k: "clean_text ?y = collapse_ws ?y"
    by (elim conjE) simp
  from c r chars k show ?thesis by (intro conjI)
qed

text \<open>
  C2, as the specification states it, fails. The input is \<open>"\x01 \xe9"\<close>: the control
  character and the space stay, the letter becomes a second space. The output has a
  run of two spaces, and its first character is not printable.
\<close>

theorem clean_text_output_counterexample:
  "clean_text [1, 32, 233] = [1, 32, 32] \<and> multi_space (clean_text [1, 32, 233]) \<and>
   \<not> list_all printable (clean_text [1, 32, 233])"
  by (simp add: clean_text_def strip_def isspace_def non_ascii_def SPACE_def printable_def)

text \<open>
  C7: \<open>clean_text\<close> is not idempotent. On \<open>"\xe9"\<close> the first call returns one space,
  which the second substitution puts in after the trimming, and the second call trims
  that space away.
\<close>

theorem clean_text_not_idempotent:
  "clean_text [233] = [32] \<and> clean_text (clean_text [233]) = [] \<and>
   clean_text (clean_text [233]) \<noteq> clean_text [233]"
  by (simp add: clean_text_def strip_def isspace_def non_ascii_def SPACE_def)

subsection \<open>Inputs without characters above 0x7F\<close>

lemma strip_ends:
  "strip s = [] \<or> (\<not> isspace (hd (strip s)) \<and> \<not> isspace (last (strip s)))"
proof (cases "strip s = []")
  case True
  then show ?thesis by simp
next
  case False
  let ?d = "dropWhile isspace s" and ?r = "dropWhile isspace (rev (dropWhile isspace s))"
  from False have r: "?r \<noteq> []" by (simp add: strip_def)
  then have "\<not> isspace (hd ?r)" by (rule hd_dropWhile_not)
  with r have l: "\<not> isspace (last (strip s))" by (simp add: strip_def last_rev)
  have d: "?d \<noteq> []"
  proof
    assume "?d = []"
    then have "?r = []" by (simp only: rev.simps dropWhile.simps)
    with r show False by (simp only:)
  qed
  then have "\<not> isspace (hd ?d)" by (rule hd_dropWhile_not)
  moreover have "hd (strip s) = hd ?d"
  proof -
    from r have "last ?r = last (rev ?d)" by (rule last_dropWhile)
    with r d show ?thesis by (simp add: strip_def hd_rev last_rev)
  qed
  ultimately show ?thesis using l by simp
qed

lemma strip_fixed:
  assumes "s = [] \<or> (\<not> isspace (hd s) \<and> \<not> isspace (last s))"
  shows "strip s = s"
proof (cases s rule: rev_cases)
  case Nil
  then show ?thesis by (simp add: strip_def)
next
  case (snoc ys y)
  with assms have h: "\<not> isspace (hd s)" and l: "\<not> isspace y" by auto
  from h have d: "dropWhile isspace s = s" by (intro dropWhile_id_hd) simp
  from l snoc have "dropWhile isspace (rev s) = rev s" by simp
  with d show ?thesis by (simp add: strip_def)
qed

lemma re_sub_last:
  "s \<noteq> [] \<Longrightarrow> \<not> C (last s) \<Longrightarrow> re_sub C s \<noteq> [] \<and> last (re_sub C s) = last s"
proof (induction C s rule: re_sub.induct)
  case (1 C)
  then show ?case by simp
next
  case (2 C c cs)
  show ?case
  proof (cases "C c")
    case True
    with "2.prems" have cs: "cs \<noteq> []" by auto
    with "2.prems" have "\<exists>x\<in>set cs. \<not> C x" by (auto intro: bexI [of _ "last cs"])
    then have d: "dropWhile C cs \<noteq> []" by simp
    then have "last (dropWhile C cs) = last cs" by (rule last_dropWhile)
    with "2.prems" cs have "\<not> C (last (dropWhile C cs))" by simp
    with "2.IH"(1) [OF True d] \<open>last (dropWhile C cs) = last cs\<close> True cs
    show ?thesis by simp
  next
    case False
    show ?thesis
    proof (cases "cs = []")
      case True
      with False show ?thesis by simp
    next
      case ne: False
      with "2.prems" have "\<not> C (last cs)" by simp
      with "2.IH"(2) [OF False ne] False ne show ?thesis by simp
    qed
  qed
qed

lemma re_sub_fixed:
  "\<forall>c\<in>set s. C c \<longrightarrow> c = SPACE \<Longrightarrow> \<not> multi_space s \<Longrightarrow> re_sub C s = s"
proof (induction C s rule: re_sub.induct)
  case (1 C)
  then show ?case by simp
next
  case (2 C c cs)
  from "2.prems"(2) have ms: "\<not> multi_space cs" by (simp add: multi_space_Cons)
  show ?case
  proof (cases "C c")
    case True
    with "2.prems"(1) have c: "c = SPACE" by simp
    with "2.prems"(2) have "cs = [] \<or> hd cs \<noteq> SPACE" by (auto simp: multi_space_Cons)
    with "2.prems"(1) have "cs = [] \<or> \<not> C (hd cs)" by (cases cs) auto
    then have d: "dropWhile C cs = cs" by (rule dropWhile_id_hd)
    from "2.IH"(1) [OF True] "2.prems"(1) ms have "re_sub C cs = cs" by (simp add: d)
    with True c d show ?thesis by simp
  next
    case False
    with "2.IH"(2) [OF False] "2.prems"(1) ms show ?thesis by simp
  qed
qed

lemma collapse_ws_idem: "collapse_ws (collapse_ws x) = collapse_ws x"
proof -
  let ?t = "collapse_ws x"
  have chars: "\<forall>c\<in>set ?t. isspace c \<longrightarrow> c = SPACE"
    unfolding collapse_ws_def using re_sub_set by blast
  have ms: "\<not> multi_space ?t"
    unfolding collapse_ws_def by (rule re_sub_no_multi_space) (rule isspace_SPACE)
  have ends: "?t = [] \<or> (\<not> isspace (hd ?t) \<and> \<not> isspace (last ?t))"
  proof (cases "strip x = []")
    case True
    then show ?thesis by (simp add: collapse_ws_def)
  next
    case False
    with strip_ends [of x] have h: "\<not> isspace (hd (strip x))"
      and l: "\<not> isspace (last (strip x))" by auto
    from re_sub_last [of "strip x" isspace, OF False l] have ne: "?t \<noteq> []" and l': "last ?t = last (strip x)"
      by (simp_all add: collapse_ws_def)
    from ne obtain c t' where ct: "re_sub isspace (strip x) = c # t'"
      by (cases "re_sub isspace (strip x)") (auto simp: collapse_ws_def)
    from re_sub_hd [OF ct] h have "c = hd (strip x)" by simp
    with ct have "hd ?t = hd (strip x)" by (simp add: collapse_ws_def)
    with h l l' show ?thesis by simp
  qed
  then have "strip ?t = ?t" by (rule strip_fixed)
  moreover from chars ms have "re_sub isspace ?t = ?t" by (rule re_sub_fixed)
  ultimately show ?thesis by (simp add: collapse_ws_def [of ?t])
qed

text \<open>
  On an input without characters above 0x7F the second substitution changes nothing,
  and \<open>clean_text\<close> applied to its own output returns it as it is.
\<close>

lemma clean_text_ascii:
  assumes "\<forall>c\<in>set x. \<not> non_ascii c"
  shows "clean_text x = collapse_ws x" and "clean_text (clean_text x) = clean_text x"
proof -
  have sub: "set (strip x) \<subseteq> set x"
  proof
    fix c
    assume "c \<in> set (strip x)"
    then have "c \<in> set (dropWhile isspace (rev (dropWhile isspace x)))"
      by (simp add: strip_def)
    then have "c \<in> set (rev (dropWhile isspace x))" by (rule set_dropWhileD)
    then have "c \<in> set (dropWhile isspace x)" by simp
    then show "c \<in> set x" by (rule set_dropWhileD)
  qed
  have "\<forall>c\<in>set (collapse_ws x). \<not> non_ascii c"
  proof
    fix c assume "c \<in> set (collapse_ws x)"
    then have "c = SPACE \<or> c \<in> set (strip x)"
      unfolding collapse_ws_def by (auto dest: re_sub_set)
    with sub assms show "\<not> non_ascii c" by (auto simp: not_non_ascii_SPACE)
  qed
  then have id: "re_sub non_ascii (collapse_ws x) = collapse_ws x" by (rule re_sub_id)
  have e: "collapse_ws [] = []" by (simp add: collapse_ws_def strip_def)
  show a: "clean_text x = collapse_ws x"
    by (cases "x = []") (simp_all add: clean_text_collapse id e)
  show "clean_text (clean_text x) = clean_text x"
    unfolding a
    by (cases "collapse_ws x = []") (simp_all add: clean_text_collapse collapse_ws_idem id)
qed

section \<open>Properties of the date step\<close>

lemma decimal_lt10: "n < 10 \<Longrightarrow> decimal n = [digit n]"
  by (simp add: decimal.simps)

lemma decimal_ge10: "10 \<le> n \<Longrightarrow> decimal n = decimal (n div 10) @ [digit n]"
  by (subst decimal.simps) simp

lemma zfill2_decimal:
  assumes "n < 100"
  shows "zfill 2 (decimal n) = [48 + n div 10, 48 + n mod 10]"
proof (cases "n < 10")
  case True
  then show ?thesis by (simp add: zfill_def decimal_lt10 digit_def)
next
  case False
  with assms have "n div 10 < 10" by simp
  with False show ?thesis
    by (simp add: zfill_def decimal_ge10 decimal_lt10 digit_def)
qed


lemma decimal_2digits:
  assumes "10 \<le> n" "n < 100"
  shows "decimal n = [48 + n div 10, 48 + n mod 10]"
proof -
  from assms have "n div 10 < 10" by simp
  with assms(1) show ?thesis by (simp add: decimal_ge10 decimal_lt10 digit_def)
qed

lemma decimal_3digits:
  assumes "100 \<le> n" "n < 1000"
  shows "decimal n = [48 + n div 100, 48 + n div 10 mod 10, 48 + n mod 10]"
proof -
  have r: "10 \<le> n div 10" "n div 10 < 100" using assms by simp_all
  have d: "n div 10 div 10 = n div 100" by (simp add: div_mult2_eq [symmetric])
  have "10 \<le> n" using assms by simp
  then have "decimal n = decimal (n div 10) @ [digit n]" by (rule decimal_ge10)
  also have "decimal (n div 10) = [48 + n div 10 div 10, 48 + n div 10 mod 10]"
    using r by (rule decimal_2digits)
  finally show ?thesis by (simp add: d digit_def)
qed

lemma decimal_4digits:
  assumes "1000 \<le> n" "n < 10000"
  shows "decimal n =
    [48 + n div 1000, 48 + n div 100 mod 10, 48 + n div 10 mod 10, 48 + n mod 10]"
proof -
  have r: "100 \<le> n div 10" "n div 10 < 1000" using assms by simp_all
  have d: "n div 10 div 100 = n div 1000" "n div 10 div 10 = n div 100"
    by (simp_all add: div_mult2_eq [symmetric])
  have "10 \<le> n" using assms by simp
  then have "decimal n = decimal (n div 10) @ [digit n]" by (rule decimal_ge10)
  also have "decimal (n div 10) =
      [48 + n div 10 div 100, 48 + n div 10 div 10 mod 10, 48 + n div 10 mod 10]"
    using r by (rule decimal_3digits)
  finally show ?thesis by (simp add: d digit_def)
qed

lemma replicate2: "replicate 2 x = [x, x]"
  by (simp add: numeral_2_eq_2)

lemma replicate3: "replicate 3 x = [x, x, x]"
  by (simp add: numeral_3_eq_3)

lemma zfill4_decimal:
  assumes "n < 10000"
  shows "zfill 4 (decimal n) =
    [48 + n div 1000, 48 + n div 100 mod 10, 48 + n div 10 mod 10, 48 + n mod 10]"
proof -
  consider "n < 10" | "10 \<le> n" "n < 100" | "100 \<le> n" "n < 1000" | "1000 \<le> n"
    by linarith
  then show ?thesis
  proof cases
    case 1
    then show ?thesis
      by (simp add: zfill_def decimal_lt10 digit_def replicate3)
  next
    case 2
    then have "n div 10 < 10" by simp
    with 2 show ?thesis
      by (simp add: zfill_def decimal_2digits replicate2)
  next
    case 3
    then have "n div 100 < 10" by simp
    with 3 show ?thesis
      by (simp add: zfill_def decimal_3digits)
  next
    case 4
    with assms show ?thesis
      by (simp add: zfill_def decimal_4digits)
  qed
qed

lemma year_field:
  assumes "n < 10000" "pads \<or> 1000 \<le> n"
  shows "(if pads then zfill 4 (decimal n) else decimal n) =
    [48 + n div 1000, 48 + n div 100 mod 10, 48 + n div 10 mod 10, 48 + n mod 10]"
  using assms by (auto simp: zfill4_decimal decimal_4digits)

lemma strftime_fields:
  assumes "valid_datetime d" "pads \<or> 1000 \<le> year d"
  shows "strftime pads d =
    [48 + year d div 1000, 48 + year d div 100 mod 10, 48 + year d div 10 mod 10,
     48 + year d mod 10, 45,
     48 + month d div 10, 48 + month d mod 10, 45,
     48 + day d div 10, 48 + day d mod 10, 32,
     48 + hour d div 10, 48 + hour d mod 10, 58,
     48 + minute d div 10, 48 + minute d mod 10, 58,
     48 + second d div 10, 48 + second d mod 10]"
proof -
  from assms(1) have b: "year d < 10000" "month d < 100" "day d < 100" "hour d < 100"
    "minute d < 100" "second d < 100"
    by (simp_all add: valid_datetime_def)
  have y: "(if pads then zfill 4 (decimal (year d)) else decimal (year d)) =
    [48 + year d div 1000, 48 + year d div 100 mod 10, 48 + year d div 10 mod 10,
     48 + year d mod 10]"
    using b(1) assms(2) by (rule year_field)
  show ?thesis
    unfolding strftime_def y
    by (simp add: zfill2_decimal b str_def)
qed

lemma is_digit_offset: "k < 10 \<Longrightarrow> is_digit (48 + k)"
  by (simp add: is_digit_def)

lemma canonical_strftime:
  assumes "valid_datetime d" "pads \<or> 1000 \<le> year d"
  shows "canonical (strftime pads d)"
proof -
  from assms(1) have "year d < 10000" "month d < 100" "day d < 100" "hour d < 100"
    "minute d < 100" "second d < 100"
    by (simp_all add: valid_datetime_def)
  then have b: "year d div 1000 < 10" "month d div 10 < 10" "day d div 10 < 10"
    "hour d div 10 < 10" "minute d div 10 < 10" "second d div 10 < 10"
    by simp_all
  show ?thesis
    unfolding strftime_fields [OF assms] canonical_def str_def
    by (simp add: is_digit_offset b)
qed

lemma number2: "number [48 + a, 48 + b] = 10 * a + b"
  by (simp add: number_def)

lemma number4: "number [48 + a, 48 + b, 48 + c, 48 + e] = 10 * (10 * (10 * a + b) + c) + e"
  by (simp add: number_def)

lemma two_digits: "10 * (n div 10) + n mod 10 = (n::nat)"
  by simp

lemma four_digits:
  "1000 * (n div 1000) + 100 * (n div 100 mod 10) + 10 * (n div 10 mod 10) + n mod 10 = (n::nat)"
proof -
  have d1: "n div 10 div 10 = n div 100" and d2: "n div 100 div 10 = n div 1000"
    by (simp_all add: div_mult2_eq [symmetric])
  have a: "n = 10 * (n div 10) + n mod 10" by simp
  have "n div 10 = 10 * (n div 10 div 10) + n div 10 mod 10" by simp
  then have b: "n div 10 = 10 * (n div 100) + n div 10 mod 10" by (simp only: d1)
  have "n div 100 = 10 * (n div 100 div 10) + n div 100 mod 10" by simp
  then have c: "n div 100 = 10 * (n div 1000) + n div 100 mod 10" by (simp only: d2)
  from a b c show ?thesis by linarith
qed

lemma same_fields_strftime:
  assumes "valid_datetime d" "pads \<or> 1000 \<le> year d"
  shows "same_fields d (strftime pads d)"
proof -
  from assms(1) have y: "year d < 10000" by (simp add: valid_datetime_def)
  show ?thesis
    unfolding strftime_fields [OF assms] same_fields_def
    by (simp add: number2 number4 two_digits four_digits)
qed

lemma strftime_utcoffset: "strftime pads (d\<lparr>utcoffset := z\<rparr>) = strftime pads d"
  by (simp add: strftime_def)

text \<open>
  C3, as the code has it. Let every \<open>datetime\<close> that \<open>strptime\<close> returns be a valid one.
  For every raw string the date step returns a string and raises nothing: the
  sentinel \<open>Unknown\<close> when the raw value is the sentinel or \<open>strptime\<close> raises
  (\<open>ValueError\<close> or \<open>TypeError\<close>), and otherwise \<open>strftime\<close> of the parsed fields, whatever
  the offset of the timezone. That string has the shape \<open>YYYY-MM-DD HH:MM:SS\<close> and
  reads back as the parsed fields when the parsed year is 1000 or later, or the
  platform pads \<open>%Y\<close>.
\<close>

theorem normalize_pub_date_result:
  assumes lib: "\<forall>s dt. strptime E s = Inr dt \<longrightarrow> valid_datetime dt"
  shows "(raw = str ''Unknown'' \<or> (\<exists>e. strptime E raw = Inl e) \<longrightarrow>
            normalize_pub_date E raw = str ''Unknown'') \<and>
         (\<forall>dt. raw \<noteq> str ''Unknown'' \<and> strptime E raw = Inr dt \<longrightarrow>
            normalize_pub_date E raw = strftime (pads_year E) dt \<and>
            (\<forall>z. strftime (pads_year E) (dt\<lparr>utcoffset := z\<rparr>) = normalize_pub_date E raw) \<and>
            (pads_year E \<or> 1000 \<le> year dt \<longrightarrow>
               canonical (normalize_pub_date E raw) \<and>
               same_fields dt (normalize_pub_date E raw)))"
proof (intro conjI impI allI)
  assume "raw = str ''Unknown'' \<or> (\<exists>e. strptime E raw = Inl e)"
  then show "normalize_pub_date E raw = str ''Unknown''"
  proof
    assume "raw = str ''Unknown''"
    then show ?thesis by (simp add: normalize_pub_date_def)
  next
    assume "\<exists>e. strptime E raw = Inl e"
    then obtain e where "strptime E raw = Inl e" ..
    then show ?thesis
      by (cases e) (simp_all add: normalize_pub_date_def)
  qed
next
  fix dt
  assume h: "raw \<noteq> str ''Unknown'' \<and> strptime E raw = Inr dt"
  then show r: "normalize_pub_date E raw = strftime (pads_year E) dt"
    by (simp add: normalize_pub_date_def)
  fix z
  show "strftime (pads_year E) (dt\<lparr>utcoffset := z\<rparr>) = normalize_pub_date E raw"
    using r by (simp add: strftime_utcoffset)
next
  fix dt
  assume h: "raw \<noteq> str ''Unknown'' \<and> strptime E raw = Inr dt"
    and y: "pads_year E \<or> 1000 \<le> year dt"
  from h have r: "normalize_pub_date E raw = strftime (pads_year E) dt"
    by (simp add: normalize_pub_date_def)
  from lib h have v: "valid_datetime dt" by blast
  show "canonical (normalize_pub_date E raw)"
    unfolding r using v y by (rule canonical_strftime)
  show "same_fields dt (normalize_pub_date E raw)"
    unfolding r using v y by (rule same_fields_strftime)
qed

lemma sample_strptime_valid:
  "\<forall>s dt. strptime sample_env s = Inr dt \<longrightarrow> valid_datetime dt"
  by (auto simp: sample_env_def valid_datetime_def split: if_splits)

theorem normalize_pub_date_result_witness:
  "normalize_pub_date sample_env (str ''Tue, 02 Jan 2024 03:04:05 +0530'') =
     str ''2024-01-02 03:04:05'' \<and>
   canonical (normalize_pub_date sample_env (str ''Tue, 02 Jan 2024 03:04:05 +0530'')) \<and>
   normalize_pub_date sample_env (str ''yesterday'') = str ''Unknown'' \<and>
   normalize_pub_date sample_env (str ''Unknown'') = str ''Unknown''"
proof -
  let ?raw = "str ''Tue, 02 Jan 2024 03:04:05 +0530''"
  let ?dt = "\<lparr>year = 2024, month = 1, day = 2, hour = 3, minute = 4, second = 5,
              utcoffset = 19800\<rparr>"
  note res = normalize_pub_date_result [OF sample_strptime_valid]
  have p: "?raw \<noteq> str ''Unknown'' \<and> strptime sample_env ?raw = Inr ?dt"
    by (simp add: sample_env_def str_def)
  have y: "pads_year sample_env \<or> 1000 \<le> year ?dt" by simp
  from res [of ?raw] p y
  have a: "normalize_pub_date sample_env ?raw = strftime (pads_year sample_env) ?dt"
    and b: "canonical (normalize_pub_date sample_env ?raw)"
    by blast+
  have "strftime (pads_year sample_env) ?dt = str ''2024-01-02 03:04:05''"
    by (simp add: strftime_fields valid_datetime_def str_def)
  with a have a': "normalize_pub_date sample_env ?raw = str ''2024-01-02 03:04:05''" by simp
  have "\<exists>e. strptime sample_env (str ''yesterday'') = Inl e"
    by (simp add: sample_env_def str_def)
  with res [of "str ''yesterday''"]
  have c: "normalize_pub_date sample_env (str ''yesterday'') = str ''Unknown''" by blast
  from res [of "str ''Unknown''"]
  have d: "normalize_pub_date sample_env (str ''Unknown'') = str ''Unknown''" by blast
  from a' b c d show ?thesis by (intro conjI)
qed

text \<open>
  C3, as the specification states it, fails where \<open>%Y\<close> does not pad: the timestamp
  \<open>Mon, 01 Jan 0999 10:20:30 +0530\<close> parses, and the result is the 18 characters
  \<open>999-01-01 10:20:30\<close>, neither of the shape \<open>YYYY-MM-DD HH:MM:SS\<close> nor the sentinel.
\<close>

theorem normalize_pub_date_counterexample:
  "normalize_pub_date sample_env (str ''Mon, 01 Jan 0999 10:20:30 +0530'') =
     str ''999-01-01 10:20:30'' \<and>
   \<not> canonical (normalize_pub_date sample_env (str ''Mon, 01 Jan 0999 10:20:30 +0530'')) \<and>
   normalize_pub_date sample_env (str ''Mon, 01 Jan 0999 10:20:30 +0530'') \<noteq> str ''Unknown''"
proof -
  have d: "decimal 999 = [57, 57, 57]"
    by (simp add: decimal_3digits)
  have r: "normalize_pub_date sample_env (str ''Mon, 01 Jan 0999 10:20:30 +0530'') =
     str ''999-01-01 10:20:30''"
    by (simp add: normalize_pub_date_def sample_env_def str_def strftime_def d zfill2_decimal)
  show ?thesis unfolding r by (simp add: canonical_def str_def)
qed

section \<open>Properties of the language step\<close>

text \<open>
  C8. Let the detector of the library be one that, once a seed is set, does not depend
  on the randomness of the process. Then \<open>detect_language\<close> returns the same code for
  the same text whatever that randomness is, in one run or in two; it returns the
  sentinel \<open>unknown\<close> whenever the detector raises, the code of the detector
  otherwise, and raises nothing.
\<close>

theorem detect_language_deterministic:
  assumes "seeded_detector (detect E)"
  shows "detect_language (E\<lparr>entropy := r\<rparr>) text = detect_language (E\<lparr>entropy := r'\<rparr>) text \<and>
         ((\<exists>e. detect E DetectorFactory_seed (entropy E) text = Inl e) \<longrightarrow>
            detect_language E text = str ''unknown'') \<and>
         (\<forall>code. detect E DetectorFactory_seed (entropy E) text = Inr code \<longrightarrow>
            detect_language E text = code)"
proof (intro conjI impI allI)
  from assms have "detect E (Some 0) r text = detect E (Some 0) r' text"
    unfolding seeded_detector_def by blast
  then show "detect_language (E\<lparr>entropy := r\<rparr>) text = detect_language (E\<lparr>entropy := r'\<rparr>) text"
    by (simp add: detect_language_def DetectorFactory_seed_def)
next
  assume "\<exists>e. detect E DetectorFactory_seed (entropy E) text = Inl e"
  then obtain e where "detect E DetectorFactory_seed (entropy E) text = Inl e" ..
  then show "detect_language E text = str ''unknown''"
    by (simp add: detect_language_def)
next
  fix code
  assume "detect E DetectorFactory_seed (entropy E) text = Inr code"
  then show "detect_language E text = code"
    by (simp add: detect_language_def)
qed

lemma sample_detector_seeded: "seeded_detector (detect sample_env)"
  by (simp add: seeded_detector_def sample_env_def)

theorem detect_language_deterministic_witness:
  "detect_language (sample_env\<lparr>entropy := 1\<rparr>) (str ''Storm warning'') =
     detect_language (sample_env\<lparr>entropy := 2\<rparr>) (str ''Storm warning'') \<and>
   detect sample_env None 1 (str ''Storm warning'') \<noteq>
     detect sample_env None 2 (str ''Storm warning'') \<and>
   detect_language sample_env (str ''Storm warning'') = str ''en'' \<and>
   detect_language sample_env [] = str ''unknown''"
proof -
  note det = detect_language_deterministic [OF sample_detector_seeded]
  from det [of 1 "str ''Storm warning''" 2]
  have a: "detect_language (sample_env\<lparr>entropy := 1\<rparr>) (str ''Storm warning'') =
     detect_language (sample_env\<lparr>entropy := 2\<rparr>) (str ''Storm warning'')"
    by (elim conjE)
  have b: "detect sample_env None 1 (str ''Storm warning'') \<noteq>
     detect sample_env None 2 (str ''Storm warning'')"
    by (simp add: sample_env_def str_def)
  have "detect sample_env DetectorFactory_seed (entropy sample_env) (str ''Storm warning'') =
      Inr (str ''en'')"
    by (simp add: sample_env_def DetectorFactory_seed_def str_def)
  with det [of 0 "str ''Storm warning''" 0]
  have c: "detect_language sample_env (str ''Storm warning'') = str ''en''" by blast
  have "\<exists>e. detect sample_env DetectorFactory_seed (entropy sample_env) [] = Inl e"
    by (simp add: sample_env_def DetectorFactory_seed_def)
  with det [of 0 "[]" 0]
  have d: "detect_language sample_env [] = str ''unknown''" by blast
  from a b c d show ?thesis by (intro conjI)
qed

section \<open>Properties of \<open>parse_rss_feed\<close>\<close>

lemma tagged_middle: "tagged feed_info (pre @ source_tag feed_info @ post)"
  unfolding tagged_def by blast

lemma tagged_end: "tagged feed_info (a @ b @ c @ source_tag feed_info)"
proof -
  have "a @ b @ c @ source_tag feed_info = (a @ b @ c) @ source_tag feed_info @ []"
    by simp
  then show ?thesis unfolding tagged_def by blast
qed

text \<open>
  The loop appends the records of the entries before the first one whose body raises,
  and of all entries when none does.
\<close>

lemma entries_loop_prefix:
  "entries_loop E feed_info es acc = (x, items) \<Longrightarrow>
   \<exists>n\<le>length es.
      map Inr items = map Inr acc @ map (make_item E feed_info) (take n es) \<and>
      (x = None \<longrightarrow> n = length es) \<and>
      (\<forall>e. x = Some e \<longrightarrow> n < length es \<and> make_item E feed_info (es ! n) = Inl e)"
proof (induction es arbitrary: acc)
  case Nil
  then show ?case by auto
next
  case (Cons entry rest)
  show ?case
  proof (cases "make_item E feed_info entry")
    case (Inl e)
    with Cons.prems have "x = Some e" "items = acc" by simp_all
    with Inl show ?thesis by (intro exI [of _ 0]) simp
  next
    case (Inr item)
    with Cons.prems have "entries_loop E feed_info rest (acc @ [item]) = (x, items)" by simp
    from Cons.IH [OF this] obtain n where n: "n \<le> length rest"
      and m: "map Inr items = map Inr (acc @ [item]) @ map (make_item E feed_info) (take n rest)"
      and a: "x = None \<longrightarrow> n = length rest"
      and b: "\<forall>e. x = Some e \<longrightarrow> n < length rest \<and> make_item E feed_info (rest ! n) = Inl e"
      by blast
    from n m a b Inr show ?thesis by (intro exI [of _ "Suc n"]) simp
  qed
qed

lemma try_block_log:
  "fst (try_block E feed_info lg) = fst (try_block E feed_info lg') \<and>
   fst (snd (try_block E feed_info lg)) = fst (snd (try_block E feed_info lg'))"
  by (simp add: try_block_def Let_def split: sum.splits prod.splits option.splits)

lemma parse_rss_feed_raised:
  assumes "try_block E feed_info lg = (Some e, items, lg')"
  shows "fst (parse_rss_feed E feed_info lg) = items \<and>
         (\<exists>msg. snd (parse_rss_feed E feed_info lg) = lg' @ [(ERROR, msg)] \<and>
                tagged feed_info msg)"
  by (cases e) (simp_all add: parse_rss_feed_def assms tagged_middle)

lemma parse_rss_feed_fails:
  assumes "fetch_fails E feed_info"
  shows "fst (parse_rss_feed E feed_info lg) = [] \<and>
         (\<exists>msg. snd (parse_rss_feed E feed_info lg) = lg @ [(ERROR, msg)] \<and> tagged feed_info msg)"
proof (cases "feedparser_parse E (feed_url feed_info)")
  case (Inl e)
  then have "try_block E feed_info lg = (Some e, [], lg)" by (simp add: try_block_def)
  then show ?thesis by (rule parse_rss_feed_raised)
next
  case (Inr feed)
  with assms have "bozo feed" by (simp add: fetch_fails_def)
  with Inr show ?thesis
    by (simp add: parse_rss_feed_def try_block_def tagged_middle)
qed

lemma parse_rss_feed_entries:
  assumes "feedparser_parse E (feed_url feed_info) = Inr feed" "\<not> bozo feed"
  shows "\<exists>n\<le>length (entries feed).
      map Inr (fst (parse_rss_feed E feed_info lg)) =
        map (make_item E feed_info) (take n (entries feed)) \<and>
      (n = length (entries feed) \<longrightarrow>
         (\<exists>msg. snd (parse_rss_feed E feed_info lg) = lg @ [(INFO, msg)] \<and>
                tagged feed_info msg)) \<and>
      (n < length (entries feed) \<longrightarrow>
         (\<exists>e. make_item E feed_info (entries feed ! n) = Inl e) \<and>
         (\<exists>msg. snd (parse_rss_feed E feed_info lg) = lg @ [(ERROR, msg)] \<and>
                tagged feed_info msg))"
proof -
  obtain x items where l: "entries_loop E feed_info (entries feed) [] = (x, items)"
    by (cases "entries_loop E feed_info (entries feed) []")
  from entries_loop_prefix [OF l] obtain n where n: "n \<le> length (entries feed)"
    and m: "map Inr items = map (make_item E feed_info) (take n (entries feed))"
    and a: "x = None \<longrightarrow> n = length (entries feed)"
    and b: "\<forall>e. x = Some e \<longrightarrow>
              n < length (entries feed) \<and> make_item E feed_info (entries feed ! n) = Inl e"
    by auto
  show ?thesis
  proof (cases x)
    case None
    with assms l have r: "parse_rss_feed E feed_info lg =
        (items, lg @ [(INFO, str ''Successfully parsed '' @ decimal (length items) @
                             str '' items from '' @ source_tag feed_info)])"
      by (simp add: parse_rss_feed_def try_block_def)
    from None a have "n = length (entries feed)" by simp
    with n m r show ?thesis
      by (intro exI [of _ n]) (simp add: tagged_end)
  next
    case (Some e)
    with assms l have "try_block E feed_info lg = (Some e, items, lg)"
      by (simp add: try_block_def)
    from parse_rss_feed_raised [OF this]
    have r: "fst (parse_rss_feed E feed_info lg) = items"
      and g: "\<exists>msg. snd (parse_rss_feed E feed_info lg) = lg @ [(ERROR, msg)] \<and>
                   tagged feed_info msg"
      by simp_all
    from Some b have "n < length (entries feed)"
      and "make_item E feed_info (entries feed ! n) = Inl e" by simp_all
    with n m r g show ?thesis
      by (intro exI [of _ n]) auto
  qed
qed

text \<open>
  C1, as the code has it. For every feed descriptor, every outcome of the fetch and
  every log, \<open>parse_rss_feed\<close> returns a list of records and a log; the exceptions of
  the \<open>try\<close> block end in one of the two handlers. When the fetch fails (the call
  raises \<open>URLError\<close> or another exception, or the parser flags the document) the list
  is empty and the log has grown by exactly one error line that carries
  \<open>{source} ({country})\<close> of the descriptor. When the document is parsed, the list
  holds the records of the entries before the first entry whose processing raises,
  in the order of the document: of all entries when none raises, and then the log has
  grown by one information line with the tag; of the entries before the raise
  otherwise, and then the log has grown by one error line with the tag.
\<close>

theorem parse_rss_feed_failure_paths:
  "(fetch_fails E feed_info \<longrightarrow>
      fst (parse_rss_feed E feed_info lg) = [] \<and>
      (\<exists>msg. snd (parse_rss_feed E feed_info lg) = lg @ [(ERROR, msg)] \<and>
             tagged feed_info msg)) \<and>
   (\<forall>feed. feedparser_parse E (feed_url feed_info) = Inr feed \<and> \<not> bozo feed \<longrightarrow>
      (\<exists>n\<le>length (entries feed).
         map Inr (fst (parse_rss_feed E feed_info lg)) =
           map (make_item E feed_info) (take n (entries feed)) \<and>
         (n = length (entries feed) \<longrightarrow>
            (\<exists>msg. snd (parse_rss_feed E feed_info lg) = lg @ [(INFO, msg)] \<and>
                   tagged feed_info msg)) \<and>
         (n < length (entries feed) \<longrightarrow>
            (\<exists>e. make_item E feed_info (entries feed ! n) = Inl e) \<and>
            (\<exists>msg. snd (parse_rss_feed E feed_info lg) = lg @ [(ERROR, msg)] \<and>
                   tagged feed_info msg))))"
proof (rule conjI)
  show "fetch_fails E feed_info \<longrightarrow>
      fst (parse_rss_feed E feed_info lg) = [] \<and>
      (\<exists>msg. snd (parse_rss_feed E feed_info lg) = lg @ [(ERROR, msg)] \<and>
             tagged feed_info msg)"
    by (rule impI) (rule parse_rss_feed_fails)
  show "\<forall>feed. feedparser_parse E (feed_url feed_info) = Inr feed \<and> \<not> bozo feed \<longrightarrow>
      (\<exists>n\<le>length (entries feed).
         map Inr (fst (parse_rss_feed E feed_info lg)) =
           map (make_item E feed_info) (take n (entries feed)) \<and>
         (n = length (entries feed) \<longrightarrow>
            (\<exists>msg. snd (parse_rss_feed E feed_info lg) = lg @ [(INFO, msg)] \<and>
                   tagged feed_info msg)) \<and>
         (n < length (entries feed) \<longrightarrow>
            (\<exists>e. make_item E feed_info (entries feed ! n) = Inl e) \<and>
            (\<exists>msg. snd (parse_rss_feed E feed_info lg) = lg @ [(ERROR, msg)] \<and>
                   tagged feed_info msg)))"
  proof (intro allI impI)
    fix feed
    assume "feedparser_parse E (feed_url feed_info) = Inr feed \<and> \<not> bozo feed"
    then have "feedparser_parse E (feed_url feed_info) = Inr feed" "\<not> bozo feed"
      by simp_all
    then show "\<exists>n\<le>length (entries feed).
         map Inr (fst (parse_rss_feed E feed_info lg)) =
           map (make_item E feed_info) (take n (entries feed)) \<and>
         (n = length (entries feed) \<longrightarrow>
            (\<exists>msg. snd (parse_rss_feed E feed_info lg) = lg @ [(INFO, msg)] \<and>
                   tagged feed_info msg)) \<and>
         (n < length (entries feed) \<longrightarrow>
            (\<exists>e. make_item E feed_info (entries feed ! n) = Inl e) \<and>
            (\<exists>msg. snd (parse_rss_feed E feed_info lg) = lg @ [(ERROR, msg)] \<and>
                   tagged feed_info msg))"
      by (rule parse_rss_feed_entries)
  qed
qed

lemma sample_feed_items:
  "list_all (\<lambda>entry. \<exists>item. make_item sample_env
       (descriptor ''Japan'' ''NHK'' ''http://a.example/rss'') entry = Inr item)
     (entries sample_feed)"
  by (simp add: sample_feed_def make_item_def clean_text_value_def truthy_def dict_get_def
      str_def Let_def)

theorem parse_rss_feed_failure_paths_witness:
  "fetch_fails sample_env (descriptor ''Canada'' ''CBC News'' ''http://b.example/rss'') \<and>
   fst (parse_rss_feed sample_env
          (descriptor ''Canada'' ''CBC News'' ''http://b.example/rss'') []) = [] \<and>
   fetch_fails sample_env (descriptor ''Kenya'' ''The Standard'' ''http://e.example/rss'') \<and>
   fst (parse_rss_feed sample_env
          (descriptor ''Kenya'' ''The Standard'' ''http://e.example/rss'') []) = [] \<and>
   snd (parse_rss_feed sample_env
          (descriptor ''Kenya'' ''The Standard'' ''http://e.example/rss'') []) =
     [(ERROR, str ''Network error for The Standard (Kenya): timed out'')] \<and>
   length (fst (parse_rss_feed sample_env
          (descriptor ''Japan'' ''NHK'' ''http://a.example/rss'') [])) = 3"
proof -
  let ?b = "descriptor ''Canada'' ''CBC News'' ''http://b.example/rss''"
  let ?e = "descriptor ''Kenya'' ''The Standard'' ''http://e.example/rss''"
  let ?a = "descriptor ''Japan'' ''NHK'' ''http://a.example/rss''"
  have fb: "fetch_fails sample_env ?b"
    by (simp add: fetch_fails_def sample_env_def descriptor_def str_def)
  have fe: "fetch_fails sample_env ?e"
    by (simp add: fetch_fails_def sample_env_def descriptor_def str_def)
  have pa: "feedparser_parse sample_env (feed_url ?a) = Inr sample_feed \<and> \<not> bozo sample_feed"
    by (simp add: sample_env_def descriptor_def str_def sample_feed_def)
  from parse_rss_feed_failure_paths [of sample_env ?b "[]"] fb
  have b1: "fst (parse_rss_feed sample_env ?b []) = []" by blast
  from parse_rss_feed_failure_paths [of sample_env ?e "[]"] fe
  have e1: "fst (parse_rss_feed sample_env ?e []) = []" by blast
  have e2: "snd (parse_rss_feed sample_env ?e []) =
     [(ERROR, str ''Network error for The Standard (Kenya): timed out'')]"
    by (simp add: parse_rss_feed_def try_block_def sample_env_def descriptor_def str_def
        source_tag_def)
  from parse_rss_feed_failure_paths [of sample_env ?a "[]"] pa
  obtain n where n: "n \<le> length (entries sample_feed)"
    and m: "map Inr (fst (parse_rss_feed sample_env ?a [])) =
           map (make_item sample_env ?a) (take n (entries sample_feed))"
    and r: "n < length (entries sample_feed) \<longrightarrow>
            (\<exists>e. make_item sample_env ?a (entries sample_feed ! n) = Inl e)"
    by blast
  have "n = length (entries sample_feed)"
  proof (rule ccontr)
    assume "n \<noteq> length (entries sample_feed)"
    with n have lt: "n < length (entries sample_feed)" by simp
    with r obtain e where "make_item sample_env ?a (entries sample_feed ! n) = Inl e"
      by blast
    moreover from sample_feed_items lt
    have "\<exists>item. make_item sample_env ?a (entries sample_feed ! n) = Inr item"
      by (simp add: list_all_length)
    ultimately show False by auto
  qed
  with m have "length (map Inr (fst (parse_rss_feed sample_env ?a [])) :: (exc + news_item) list) =
      length (entries sample_feed)"
    by simp
  then have a1: "length (fst (parse_rss_feed sample_env ?a [])) = 3"
    by (simp add: sample_feed_def)
  from fb b1 fe e1 e2 a1 show ?thesis by (intro conjI)
qed

text \<open>
  C1, as the specification states it, fails when an entry cannot be processed. The
  second entry of the feed has a number for its title, so \<open>clean_text\<close> raises
  \<open>AttributeError\<close> after the record of the first entry has been appended: the broad
  handler logs the error, and the function returns that one record, not an empty
  list.
\<close>

theorem parse_rss_feed_failure_paths_counterexample:
  "parse_rss_feed sample_env (descriptor ''Peru'' ''El Diario'' ''http://d.example/rss'') [] =
     ([\<lparr>country = str ''Peru'', source = str ''El Diario'', title = str ''Flood'',
        pub_date = str ''Unknown'', description = str ''No Description'',
        url = Str (str ''http://news.example/4''), language = str ''en''\<rparr>],
      [(ERROR, str ''Unexpected error for El Diario (Peru): '' @ no_strip)]) \<and>
   fst (parse_rss_feed sample_env
          (descriptor ''Peru'' ''El Diario'' ''http://d.example/rss'') []) \<noteq> []"
proof -
  have "parse_rss_feed sample_env (descriptor ''Peru'' ''El Diario'' ''http://d.example/rss'') [] =
     ([\<lparr>country = str ''Peru'', source = str ''El Diario'', title = str ''Flood'',
        pub_date = str ''Unknown'', description = str ''No Description'',
        url = Str (str ''http://news.example/4''), language = str ''en''\<rparr>],
      [(ERROR, str ''Unexpected error for El Diario (Peru): '' @ no_strip)])"
    by (simp add: parse_rss_feed_def try_block_def sample_env_def broken_feed_def
        descriptor_def make_item_def clean_text_value_def truthy_def dict_get_def
        clean_text_def strip_def isspace_def non_ascii_def SPACE_def
        normalize_pub_date_value_def normalize_pub_date_def detect_language_def
        DetectorFactory_seed_def message_def source_tag_def str_def Let_def)
  then show ?thesis by simp
qed

section \<open>Properties of the writers\<close>









lemma drop_duplicates_nonempty: "data \<noteq> [] \<Longrightarrow> drop_duplicates data \<noteq> []"
  by (cases data) (simp_all add: drop_duplicates_def)

lemma save_to_csv_result:
  "save_to_csv data w =
     (length (drop_duplicates data),
      w\<lparr>news_data_csv := Some (drop_duplicates data),
        logfile := logfile w @
          [(INFO, str ''Saved '' @ decimal (length (drop_duplicates data)) @
                  str '' news items to news_data.csv'')]\<rparr>)"
  by (simp add: save_to_csv_def DataFrame_def Let_def)

lemma save_to_sqlite_result:
  assumes "data \<noteq> [] \<or> news_table w \<noteq> None"
  shows "save_to_sqlite data w =
     Inr (length (drop_duplicates data),
          w\<lparr>news_table := Some (table_rows (news_table w) @ drop_duplicates data),
            logfile := logfile w @
              [(INFO, str ''Saved '' @ decimal (length (drop_duplicates data)) @
                      str '' news items to news_data.db'')]\<rparr>)"
proof (cases "news_table w")
  case None
  with assms have "drop_duplicates data \<noteq> []" by (simp add: drop_duplicates_nonempty)
  with None show ?thesis
    by (simp add: save_to_sqlite_def to_sql_def df_columns_def DataFrame_def Let_def
        table_rows_def)
next
  case (Some rows)
  then show ?thesis
    by (simp add: save_to_sqlite_def to_sql_def DataFrame_def Let_def table_rows_def)
qed

lemma save_to_sqlite_empty_new:
  "news_table w = None \<Longrightarrow> save_to_sqlite [] w = Inl (DatabaseError ''CREATE TABLE news'')"
  by (simp add: save_to_sqlite_def to_sql_def df_columns_def DataFrame_def Let_def
      drop_duplicates_def)


lemma drop_duplicates_sample:
  "drop_duplicates sample_news =
     [news ''Japan'' ''NHK'' ''Storm warning'' ''Heavy rain'' ''http://news.example/1'',
      news ''Japan'' ''NHK'' ''No Title'' ''No Description'' ''http://news.example/2'',
      news ''Canada'' ''CBC News'' ''Snow'' ''Cold'' ''http://news.example/3'']"
  by (simp add: drop_duplicates_def sample_news_def news_def str_def)


section \<open>Properties of the summary\<close>

lemma count_row_keys: "fst ` set (count_row k groups) = insert k (fst ` set groups)"
  by (induction k groups rule: count_row.induct) auto

lemma count_row_sorted:
  "sorted_wrt (<) (map fst groups) \<Longrightarrow> sorted_wrt (<) (map fst (count_row k groups))"
proof (induction k groups rule: count_row.induct)
  case (1 k)
  then show ?case by simp
next
  case (2 k k' n groups)
  show ?case
  proof (cases "k = k'")
    case True
    with 2 show ?thesis by simp
  next
    case ne: False
    show ?thesis
    proof (cases "k < k'")
      case True
      with ne 2 show ?thesis by (auto simp: less_trans)
    next
      case False
      with ne have gt: "k' < k" by simp
      from 2 ne False have ih: "sorted_wrt (<) (map fst (count_row k groups))" by simp
      have "\<forall>x\<in>fst ` set (count_row k groups). k' < x"
        unfolding count_row_keys using gt "2.prems" by auto
      with ne False ih show ?thesis by simp
    qed
  qed
qed

lemma count_row_sum: "sum_list (map snd (count_row k groups)) = Suc (sum_list (map snd groups))"
  by (induction k groups rule: count_row.induct) auto

lemma group_count_count_row:
  "group_count (count_row k groups) k' = group_count groups k' + (if k' = k then 1 else 0)"
  by (induction k groups rule: count_row.induct) (auto simp: group_count_def)

lemma group_count_member:
  "distinct (map fst groups) \<Longrightarrow> (k, n) \<in> set groups \<Longrightarrow> group_count groups k = n"
proof (induction groups)
  case Nil
  then show ?case by simp
next
  case (Cons p groups)
  show ?case
  proof (cases "p = (k, n)")
    case True
    from Cons.prems(1) True have "k \<notin> fst ` set groups" by auto
    then have "filter (\<lambda>p. fst p = k) groups = []"
      by (auto simp: filter_empty_conv)
    with True show ?thesis by (simp add: group_count_def)
  next
    case False
    with Cons.prems have m: "(k, n) \<in> set groups" by simp
    with Cons.prems(1) have "fst p \<noteq> k" by (cases p) force
    moreover from Cons.IH Cons.prems(1) m have "group_count groups k = n" by simp
    ultimately show ?thesis by (simp add: group_count_def)
  qed
qed

text \<open>The loop of \<open>groupby\<close>, from any groups counted so far.\<close>

lemma groups_loop_keys:
  "fst ` set (foldl (\<lambda>groups r. count_row (country r, source r) groups) groups df) =
     fst ` set groups \<union> group_key ` set df"
proof (induction df arbitrary: groups)
  case Nil
  then show ?case by simp
next
  case (Cons r df)
  have "fst ` set (count_row (country r, source r) groups) \<union> group_key ` set df =
      fst ` set groups \<union> group_key ` set (r # df)"
    unfolding count_row_keys by (auto simp: group_key_def)
  with Cons [of "count_row (country r, source r) groups"] show ?case by simp
qed

lemma groups_loop_sorted:
  "sorted_wrt (<) (map fst groups) \<Longrightarrow>
   sorted_wrt (<)
     (map fst (foldl (\<lambda>groups r. count_row (country r, source r) groups) groups df))"
  by (induction df arbitrary: groups) (simp_all add: count_row_sorted)

lemma groups_loop_sum:
  "sum_list (map snd (foldl (\<lambda>groups r. count_row (country r, source r) groups) groups df)) =
     sum_list (map snd groups) + length df"
  by (induction df arbitrary: groups) (simp_all add: count_row_sum)

lemma groups_loop_count:
  "group_count (foldl (\<lambda>groups r. count_row (country r, source r) groups) groups df) k =
     group_count groups k + length (records_of k df)"
  by (induction df arbitrary: groups)
     (auto simp: group_count_count_row records_of_def group_key_def)

lemma generate_summary_nonempty:
  assumes "data \<noteq> []"
  shows "generate_summary data =
    Inr (map (\<lambda>((c, s), n). \<lparr>sum_country = c, sum_source = s, total_articles = n,
                               historical_data = annotation\<rparr>)
          (foldl (\<lambda>groups r. count_row (country r, source r) groups) [] data))"
  using assms
  by (simp add: generate_summary_def groupby_size_def DataFrame_def df_columns_def)

lemma generate_summary_empty: "generate_summary [] = Inl (KeyError ''country'')"
  by (simp add: generate_summary_def groupby_size_def DataFrame_def df_columns_def)

lemma summary_rows:
  fixes groups :: "((pystr \<times> pystr) \<times> nat) list"
  defines "summary \<equiv> map (\<lambda>((c, s), n). \<lparr>sum_country = c, sum_source = s,
                               total_articles = n, historical_data = annotation\<rparr>) groups"
  shows "map row_key summary = map fst groups"
    and "map total_articles summary = map snd groups"
    and "g \<in> set summary \<Longrightarrow> historical_data g = annotation"
    and "g \<in> set summary \<Longrightarrow> (row_key g, total_articles g) \<in> set groups"
  unfolding summary_def by (auto simp: row_key_def split: prod.splits)

lemma group_count_nil: "group_count [] k = 0"
  by (simp add: group_count_def)

lemma sorted_less_distinct:
  fixes ks :: "('a::linorder) list"
  shows "sorted_wrt (<) ks \<Longrightarrow> distinct ks"
  by (induction ks) auto

text \<open>
  C6. For every record list that is not empty, \<open>generate_summary\<close> returns one row per
  pair \<open>(country, source)\<close> that occurs in the list, each pair once. The
  \<open>total_articles\<close> of a row is the number of all records of the list with that pair,
  so the counts add up to the length of the list as it was given, duplicates
  included, and every row carries the annotation.
\<close>

theorem summary_counts_every_record:
  "data \<noteq> [] \<longrightarrow>
     (\<exists>summary. generate_summary data = Inr summary \<and>
        (\<forall>g\<in>set summary. total_articles g = length (records_of (row_key g) data) \<and>
                          historical_data g = annotation) \<and>
        set (map row_key summary) = set (map group_key data) \<and>
        distinct (map row_key summary) \<and>
        sum_list (map total_articles summary) = length data)"
proof
  assume ne: "data \<noteq> []"
  define groups where
    "groups = foldl (\<lambda>groups r. count_row (country r, source r) groups) [] data"
  define summary where
    "summary = map (\<lambda>((c, s), n). \<lparr>sum_country = c, sum_source = s, total_articles = n,
                               historical_data = annotation\<rparr>) groups"
  have gs: "generate_summary data = Inr summary"
    unfolding summary_def groups_def using ne by (rule generate_summary_nonempty)
  have keys: "map row_key summary = map fst groups"
    and totals: "map total_articles summary = map snd groups"
    unfolding summary_def by (rule summary_rows)+
  have sorted: "sorted_wrt (<) (map fst groups)"
    unfolding groups_def by (rule groups_loop_sorted) simp
  then have dist: "distinct (map fst groups)" by (rule sorted_less_distinct)
  have rows: "total_articles g = length (records_of (row_key g) data) \<and>
      historical_data g = annotation" if g: "g \<in> set summary" for g
  proof -
    from g have "(row_key g, total_articles g) \<in> set groups"
      unfolding summary_def by (rule summary_rows)
    with dist have "group_count groups (row_key g) = total_articles g"
      by (rule group_count_member)
    moreover have "group_count groups (row_key g) = length (records_of (row_key g) data)"
      unfolding groups_def by (simp add: groups_loop_count group_count_nil)
    moreover from g have "historical_data g = annotation"
      unfolding summary_def by (rule summary_rows)
    ultimately show ?thesis by simp
  qed
  have k: "set (map row_key summary) = set (map group_key data)"
    unfolding keys groups_def using groups_loop_keys [of "[]" data] by simp
  have s: "sum_list (map total_articles summary) = length data"
    unfolding totals groups_def by (simp add: groups_loop_sum)
  from gs rows k dist s keys
  show "\<exists>summary. generate_summary data = Inr summary \<and>
        (\<forall>g\<in>set summary. total_articles g = length (records_of (row_key g) data) \<and>
                          historical_data g = annotation) \<and>
        set (map row_key summary) = set (map group_key data) \<and>
        distinct (map row_key summary) \<and>
        sum_list (map total_articles summary) = length data"
    by (intro exI [of _ summary]) simp
qed


lemma generate_summary_sample:
  "generate_summary sample_news =
     Inr [\<lparr>sum_country = str ''Canada'', sum_source = str ''CBC News'', total_articles = 1,
           historical_data = annotation\<rparr>,
          \<lparr>sum_country = str ''Japan'', sum_source = str ''NHK'', total_articles = 3,
           historical_data = annotation\<rparr>]"
  by (simp add: generate_summary_def groupby_size_def DataFrame_def df_columns_def
      sample_news_def news_def str_def)

theorem summary_counts_every_record_witness:
  "generate_summary sample_news =
     Inr [\<lparr>sum_country = str ''Canada'', sum_source = str ''CBC News'', total_articles = 1,
           historical_data = annotation\<rparr>,
          \<lparr>sum_country = str ''Japan'', sum_source = str ''NHK'', total_articles = 3,
           historical_data = annotation\<rparr>] \<and>
   length (records_of (str ''Japan'', str ''NHK'') sample_news) = 3 \<and>
   length (records_of (str ''Japan'', str ''NHK'') (drop_duplicates sample_news)) = 2 \<and>
   length sample_news = 1 + 3"
proof -
  let ?canada = "\<lparr>sum_country = str ''Canada'', sum_source = str ''CBC News'',
      total_articles = 1, historical_data = annotation\<rparr>"
  let ?japan = "\<lparr>sum_country = str ''Japan'', sum_source = str ''NHK'',
      total_articles = 3, historical_data = annotation\<rparr>"
  have ne: "sample_news \<noteq> []" by (simp add: sample_news_def)
  with summary_counts_every_record [of sample_news] obtain summary where
    gs: "generate_summary sample_news = Inr summary"
    and rows: "\<forall>g\<in>set summary. total_articles g = length (records_of (row_key g) sample_news)
        \<and> historical_data g = annotation"
    and total: "sum_list (map total_articles summary) = length sample_news"
    by blast
  from gs have s: "summary = [?canada, ?japan]"
    by (simp only: generate_summary_sample sum.inject)
  from rows have "total_articles ?japan = length (records_of (row_key ?japan) sample_news)"
    unfolding s by simp
  then have a: "length (records_of (str ''Japan'', str ''NHK'') sample_news) = 3"
    by (simp add: row_key_def)
  have b: "length (records_of (str ''Japan'', str ''NHK'') (drop_duplicates sample_news)) = 2"
    by (simp add: drop_duplicates_sample records_of_def group_key_def news_def str_def)
  from total have c: "length sample_news = 1 + 3"
    unfolding s by simp
  from generate_summary_sample a b c show ?thesis by (intro conjI)
qed


section \<open>Properties of the pipeline\<close>

lemma parse_rss_feed_items_log:
  "fst (parse_rss_feed E feed_info lg) = fst (parse_rss_feed E feed_info lg')"
proof -
  obtain x items l where t: "try_block E feed_info lg = (x, items, l)"
    by (cases "try_block E feed_info lg")
  obtain x' items' l' where t': "try_block E feed_info lg' = (x', items', l')"
    by (cases "try_block E feed_info lg'")
  from try_block_log [of E feed_info lg lg'] t t' have same: "x' = x" "items' = items"
    by simp_all
  have items: "fst (parse_rss_feed E feed_info k) = items"
    if "try_block E feed_info k = (x, items, m)" for k m
  proof (cases x)
    case None
    with that show ?thesis by (simp add: parse_rss_feed_def)
  next
    case (Some e)
    with that show ?thesis by (cases e) (simp_all add: parse_rss_feed_def)
  qed
  from items [OF t] items [OF t' [unfolded same]] show ?thesis by simp
qed

lemma collect_loop_items:
  "fst (foldl (\<lambda>(all_news, lg) feed.
              let lg = lg @ [(INFO, str ''Processing feed: '' @ source_tag feed)];
                  (news_items, lg) = parse_rss_feed E feed lg
              in (all_news @ news_items, lg))
           (acc, lg) feeds) =
   acc @ concat (map (\<lambda>feed. fst (parse_rss_feed E feed [])) feeds)"
proof (induction feeds arbitrary: acc lg)
  case Nil
  then show ?case by simp
next
  case (Cons feed feeds)
  obtain items lg' where
    p: "parse_rss_feed E feed (lg @ [(INFO, str ''Processing feed: '' @ source_tag feed)]) =
      (items, lg')"
    by (cases "parse_rss_feed E feed (lg @ [(INFO, str ''Processing feed: '' @ source_tag feed)])")
  have "items = fst (parse_rss_feed E feed [])"
    using p parse_rss_feed_items_log [of E feed
        "lg @ [(INFO, str ''Processing feed: '' @ source_tag feed)]" "[]"]
    by simp
  with p Cons [of "acc @ items" lg'] show ?case by simp
qed

lemma collect_items:
  "fst (collect E feeds lg) = concat (map (\<lambda>feed. fst (parse_rss_feed E feed [])) feeds)"
  unfolding collect_def collect_loop_items by simp

lemma collect_items_log: "fst (collect E feeds lg) = fst (collect E feeds lg')"
  by (simp add: collect_items)

lemma pipeline_completes:
  assumes "fst (collect E feeds (logfile w)) \<noteq> []"
  shows "\<exists>w' summary.
     pipeline E feeds w = (None, w') \<and>
     news_data_csv w' = Some (drop_duplicates (fst (collect E feeds (logfile w)))) \<and>
     news_table w' =
       Some (table_rows (news_table w) @ drop_duplicates (fst (collect E feeds (logfile w)))) \<and>
     generate_summary (fst (collect E feeds (logfile w))) = Inr summary \<and>
     news_summary_csv w' = Some summary"
proof -
  obtain all_news lg where c: "collect E feeds (logfile w) = (all_news, lg)"
    by (cases "collect E feeds (logfile w)")
  with assms have ne: "all_news \<noteq> []" by simp
  obtain n w1 where csv: "save_to_csv all_news (w\<lparr>logfile := lg\<rparr>) = (n, w1)"
    and w1: "news_data_csv w1 = Some (drop_duplicates all_news)" "news_table w1 = news_table w"
    by (simp add: save_to_csv_result)
  from ne have "all_news \<noteq> [] \<or> news_table w1 \<noteq> None" by simp
  from save_to_sqlite_result [OF this] obtain m w2 where
    db: "save_to_sqlite all_news w1 = Inr (m, w2)"
    and w2: "news_data_csv w2 = Some (drop_duplicates all_news)"
      "news_table w2 = Some (table_rows (news_table w) @ drop_duplicates all_news)"
    by (simp add: w1)
  from generate_summary_nonempty [OF ne] obtain summary where
    gs: "generate_summary all_news = Inr summary"
    by simp
  show ?thesis
    by (simp add: pipeline_def c csv db gs w2 Let_def)
qed

lemma pipeline_aborts:
  assumes "fst (collect E feeds (logfile w)) = []"
  shows "fst (pipeline E feeds w) =
           Some (if news_table w = None then DatabaseError ''CREATE TABLE news''
                 else KeyError ''country'') \<and>
         news_data_csv (snd (pipeline E feeds w)) = Some [] \<and>
         news_table (snd (pipeline E feeds w)) = news_table w \<and>
         news_summary_csv (snd (pipeline E feeds w)) = news_summary_csv w"
proof -
  obtain all_news lg where c: "collect E feeds (logfile w) = (all_news, lg)"
    by (cases "collect E feeds (logfile w)")
  with assms have e: "all_news = []" by simp
  obtain n w1 where csv: "save_to_csv [] (w\<lparr>logfile := lg\<rparr>) = (n, w1)"
    and w1: "news_data_csv w1 = Some []" "news_table w1 = news_table w"
      "news_summary_csv w1 = news_summary_csv w"
    by (simp add: save_to_csv_result drop_duplicates_def)
  show ?thesis
  proof (cases "news_table w")
    case None
    with w1 have "save_to_sqlite [] w1 = Inl (DatabaseError ''CREATE TABLE news'')"
      by (simp add: save_to_sqlite_empty_new)
    with None show ?thesis
      by (simp add: pipeline_def c e csv w1)
  next
    case (Some rows)
    with w1 have "[] \<noteq> ([] :: news_item list) \<or> news_table w1 \<noteq> None" by simp
    from save_to_sqlite_result [OF this] obtain m w2 where
      db: "save_to_sqlite [] w1 = Inr (m, w2)"
      and w2: "news_data_csv w2 = Some []" "news_table w2 = news_table w"
        "news_summary_csv w2 = news_summary_csv w"
      by (simp add: w1 Some table_rows_def drop_duplicates_def)
    with Some show ?thesis
      by (simp add: pipeline_def c e csv db generate_summary_empty)
  qed
qed

lemma row_count_Some: "row_count (Some rows) = length rows"
  by (simp add: row_count_def)

lemma row_count_0: "row_count t = 0 \<Longrightarrow> table_rows t = []"
  by (cases t) (simp_all add: row_count_def table_rows_def)

text \<open>
  C5. Let a run of the pipeline complete, and let a second run follow with the same
  descriptors, the same outcomes of the fetches and the same libraries, on the files
  and the table that the first run left. Then the second run completes too. After
  each run the tabular file holds the deduplicated batch and nothing else, whatever
  it held before, so its row count is unchanged by the second run. Each run adds the
  deduplicated batch to the rows of the table, and when the table had no rows before
  the first run, the second run doubles its row count.
\<close>

theorem pipeline_twice:
  assumes "pipeline E feeds w = (None, w1)"
  shows "\<exists>w2. pipeline E feeds w1 = (None, w2) \<and>
           news_data_csv w1 = Some (drop_duplicates (fst (collect E feeds []))) \<and>
           news_table w1 =
             Some (table_rows (news_table w) @ drop_duplicates (fst (collect E feeds []))) \<and>
           news_table w2 =
             Some (table_rows (news_table w1) @ drop_duplicates (fst (collect E feeds []))) \<and>
           news_data_csv w2 = news_data_csv w1 \<and>
           row_count (news_data_csv w2) = row_count (news_data_csv w1) \<and>
           row_count (news_table w2) = row_count (news_table w1) + row_count (news_data_csv w1) \<and>
           (row_count (news_table w) = 0 \<longrightarrow>
              row_count (news_table w2) = 2 * row_count (news_table w1))"
proof -
  define all_news where "all_news = fst (collect E feeds (logfile w))"
  have same: "fst (collect E feeds (logfile w1)) = all_news"
    unfolding all_news_def by (rule collect_items_log)
  have ne: "all_news \<noteq> []"
  proof
    assume "all_news = []"
    then have "fst (collect E feeds (logfile w)) = []" by (simp add: all_news_def)
    from pipeline_aborts [OF this] assms show False by simp
  qed
  then have "fst (collect E feeds (logfile w)) \<noteq> []" by (simp add: all_news_def)
  from pipeline_completes [OF this] assms
  have csv1: "news_data_csv w1 = Some (drop_duplicates all_news)"
    and db1: "news_table w1 = Some (table_rows (news_table w) @ drop_duplicates all_news)"
    by (auto simp: all_news_def)
  from ne same have "fst (collect E feeds (logfile w1)) \<noteq> []" by simp
  from pipeline_completes [OF this] obtain w2 where
    run2: "pipeline E feeds w1 = (None, w2)"
    and csv2: "news_data_csv w2 = Some (drop_duplicates all_news)"
    and db2: "news_table w2 = Some (table_rows (news_table w1) @ drop_duplicates all_news)"
    unfolding same by blast
  have a: "news_data_csv w2 = news_data_csv w1" by (simp add: csv1 csv2)
  have b: "row_count (news_table w2) = row_count (news_table w1) + row_count (news_data_csv w1)"
    by (simp add: db2 db1 csv1 row_count_Some table_rows_def)
  have c: "row_count (news_table w2) = 2 * row_count (news_table w1)"
    if "row_count (news_table w) = 0"
    using row_count_0 [OF that] by (simp add: db2 db1 row_count_Some table_rows_def)
  have all: "fst (collect E feeds []) = all_news"
    unfolding all_news_def by (rule collect_items_log)
  from run2 csv1 db1 db2 a b c show ?thesis unfolding all by simp
qed

lemma sample_run_all_news:
  "fst (collect sample_env sample_feeds lg) \<noteq> [] \<and>
   length (drop_duplicates (fst (collect sample_env sample_feeds lg))) = 2"
  unfolding collect_items
  by (simp add: sample_feeds_def sample_env_def sample_feed_def descriptor_def
      parse_rss_feed_def try_block_def make_item_def clean_text_value_def truthy_def
      dict_get_def clean_text_def strip_def isspace_def non_ascii_def SPACE_def
      drop_duplicates_def str_def Let_def)

theorem pipeline_twice_witness:
  "fst (pipeline sample_env sample_feeds new_world) = None \<and>
   fst (pipeline sample_env sample_feeds (snd (pipeline sample_env sample_feeds new_world))) =
     None \<and>
   row_count (news_data_csv (snd (pipeline sample_env sample_feeds new_world))) = 2 \<and>
   row_count (news_data_csv (snd (pipeline sample_env sample_feeds
     (snd (pipeline sample_env sample_feeds new_world))))) = 2 \<and>
   row_count (news_table (snd (pipeline sample_env sample_feeds new_world))) = 2 \<and>
   row_count (news_table (snd (pipeline sample_env sample_feeds
     (snd (pipeline sample_env sample_feeds new_world))))) = 4"
proof -
  let ?all = "fst (collect sample_env sample_feeds (logfile new_world))"
  have ne: "?all \<noteq> []"
    using sample_run_all_news [of "logfile new_world"] by (rule conjunct1)
  have two: "length (drop_duplicates ?all) = 2"
    using sample_run_all_news [of "logfile new_world"] by (rule conjunct2)
  from pipeline_completes [OF ne] obtain w1 where
    run1: "pipeline sample_env sample_feeds new_world = (None, w1)"
    and csv1: "news_data_csv w1 = Some (drop_duplicates ?all)"
    and db1: "news_table w1 = Some (table_rows (news_table new_world) @ drop_duplicates ?all)"
    by blast
  have fresh: "row_count (news_table new_world) = 0"
    by (simp add: new_world_def row_count_def)
  from pipeline_twice [OF run1] fresh obtain w2 where
    run2: "pipeline sample_env sample_feeds w1 = (None, w2)"
    and csv2: "row_count (news_data_csv w2) = row_count (news_data_csv w1)"
    and db2: "row_count (news_table w2) = 2 * row_count (news_table w1)"
    by blast
  have c1: "row_count (news_data_csv w1) = 2"
    by (simp add: csv1 two row_count_Some)
  have "table_rows (news_table new_world) = []"
    by (simp add: new_world_def table_rows_def)
  then have d1: "row_count (news_table w1) = 2"
    by (simp add: db1 two row_count_Some)
  show ?thesis
    by (simp add: run1 run2 csv2 db2 c1 d1)
qed

text \<open>
  C9, as the code has it. On the empty record list \<open>generate_summary\<close> raises
  \<open>KeyError\<close>: the frame has no column to group by. \<open>save_to_sqlite\<close> raises when the
  table does not exist yet, since a table cannot be created from a frame without
  columns; when the table exists it adds no row and reports 0. \<open>save_to_csv\<close> does not
  raise: \<open>drop_duplicates\<close> returns the empty frame as it is, the file is written with
  no rows and 0 is reported. So a run that collects no record ends with an exception,
  after it has emptied the tabular file and before it writes the summary.
\<close>

theorem empty_list_outputs:
  "fst (save_to_csv [] w) = 0 \<and>
   news_data_csv (snd (save_to_csv [] w)) = Some [] \<and>
   generate_summary [] = Inl (KeyError ''country'') \<and>
   (news_table w = None \<longrightarrow>
      save_to_sqlite [] w = Inl (DatabaseError ''CREATE TABLE news'')) \<and>
   (news_table w \<noteq> None \<longrightarrow>
      (\<exists>w'. save_to_sqlite [] w = Inr (0, w') \<and> news_table w' = news_table w)) \<and>
   (fst (collect E feeds (logfile w)) = [] \<longrightarrow>
      (\<exists>e. fst (pipeline E feeds w) = Some e) \<and>
      news_data_csv (snd (pipeline E feeds w)) = Some [] \<and>
      news_summary_csv (snd (pipeline E feeds w)) = news_summary_csv w)"
proof (intro conjI)
  show "fst (save_to_csv [] w) = 0"
    by (simp add: save_to_csv_result drop_duplicates_def)
  show "news_data_csv (snd (save_to_csv [] w)) = Some []"
    by (simp add: save_to_csv_result drop_duplicates_def)
  show "generate_summary [] = Inl (KeyError ''country'')"
    by (rule generate_summary_empty)
  show "news_table w = None \<longrightarrow>
      save_to_sqlite [] w = Inl (DatabaseError ''CREATE TABLE news'')"
    by (simp add: save_to_sqlite_empty_new)
  show "news_table w \<noteq> None \<longrightarrow>
      (\<exists>w'. save_to_sqlite [] w = Inr (0, w') \<and> news_table w' = news_table w)"
  proof
    assume t: "news_table w \<noteq> None"
    then have "[] \<noteq> ([] :: news_item list) \<or> news_table w \<noteq> None" by simp
    from save_to_sqlite_result [OF this] t
    show "\<exists>w'. save_to_sqlite [] w = Inr (0, w') \<and> news_table w' = news_table w"
      by (auto simp: drop_duplicates_def table_rows_def)
  qed
  show "fst (collect E feeds (logfile w)) = [] \<longrightarrow>
      (\<exists>e. fst (pipeline E feeds w) = Some e) \<and>
      news_data_csv (snd (pipeline E feeds w)) = Some [] \<and>
      news_summary_csv (snd (pipeline E feeds w)) = news_summary_csv w"
  proof
    assume "fst (collect E feeds (logfile w)) = []"
    from pipeline_aborts [OF this]
    show "(\<exists>e. fst (pipeline E feeds w) = Some e) \<and>
      news_data_csv (snd (pipeline E feeds w)) = Some [] \<and>
      news_summary_csv (snd (pipeline E feeds w)) = news_summary_csv w"
      by simp
  qed
qed

lemma sample_run_nothing:
  "fst (collect sample_env [descriptor ''Canada'' ''CBC News'' ''http://b.example/rss''] lg) = []"
  unfolding collect_items
  by (simp add: sample_env_def descriptor_def parse_rss_feed_def try_block_def str_def)

theorem empty_list_outputs_witness:
  "save_to_sqlite [] new_world = Inl (DatabaseError ''CREATE TABLE news'') \<and>
   map_sum id fst (save_to_sqlite [] (new_world\<lparr>news_table := Some sample_news\<rparr>)) = Inr 0 \<and>
   fst (pipeline sample_env [descriptor ''Canada'' ''CBC News'' ''http://b.example/rss'']
          new_world) \<noteq> None \<and>
   news_data_csv (snd (pipeline sample_env
          [descriptor ''Canada'' ''CBC News'' ''http://b.example/rss''] new_world)) = Some []"
proof -
  let ?feeds = "[descriptor ''Canada'' ''CBC News'' ''http://b.example/rss'']"
  let ?w = "new_world\<lparr>news_table := Some sample_news\<rparr>"
  note out = empty_list_outputs [of new_world sample_env ?feeds]
  have none: "news_table new_world = None" by (simp add: new_world_def)
  from out have "news_table new_world = None \<longrightarrow>
      save_to_sqlite [] new_world = Inl (DatabaseError ''CREATE TABLE news'')"
    by (elim conjE)
  with none have a: "save_to_sqlite [] new_world = Inl (DatabaseError ''CREATE TABLE news'')"
    by simp
  from empty_list_outputs [of ?w sample_env ?feeds]
  have "news_table ?w \<noteq> None \<longrightarrow>
      (\<exists>w'. save_to_sqlite [] ?w = Inr (0, w') \<and> news_table w' = news_table ?w)"
    by (elim conjE)
  then obtain w' where "save_to_sqlite [] ?w = Inr (0, w')" by auto
  then have b: "map_sum id fst (save_to_sqlite [] ?w) = Inr 0" by simp
  have e: "fst (collect sample_env ?feeds (logfile new_world)) = []"
    by (rule sample_run_nothing)
  from out have "fst (collect sample_env ?feeds (logfile new_world)) = [] \<longrightarrow>
      (\<exists>e. fst (pipeline sample_env ?feeds new_world) = Some e) \<and>
      news_data_csv (snd (pipeline sample_env ?feeds new_world)) = Some [] \<and>
      news_summary_csv (snd (pipeline sample_env ?feeds new_world)) =
        news_summary_csv new_world"
    by (elim conjE)
  with e have c: "fst (pipeline sample_env ?feeds new_world) \<noteq> None"
    and d: "news_data_csv (snd (pipeline sample_env ?feeds new_world)) = Some []"
    by auto
  from a b c d show ?thesis by (intro conjI)
qed

text \<open>
  C9, as it is stated, fails for the tabular writer: on the empty list \<open>save_to_csv\<close>
  returns 0 and leaves a file without rows; and for the store writer when the table
  exists: it returns 0 and leaves the table as it was.
\<close>

theorem empty_list_outputs_counterexample:
  "save_to_csv [] new_world =
     (0, new_world\<lparr>news_data_csv := Some [],
           logfile := [(INFO, str ''Saved 0 news items to news_data.csv'')]\<rparr>) \<and>
   save_to_sqlite [] (new_world\<lparr>news_table := Some sample_news\<rparr>) =
     Inr (0, new_world\<lparr>news_table := Some sample_news,
           logfile := [(INFO, str ''Saved 0 news items to news_data.db'')]\<rparr>)"
  by (simp add: save_to_csv_def save_to_sqlite_def to_sql_def DataFrame_def
      drop_duplicates_def new_world_def decimal_lt10 digit_def str_def)

end
